theory Spec2Isabelle
  imports Main "HOL-Library.Multiset"
begin

section \<open>JavaScript values, responses and errors\<close>

text \<open>
  The module \<^verbatim>\<open>server.js\<close> is an Express application: every route is a handler that
  reads the request, issues one statement to the PostgreSQL pool and writes one JSON
  response. The embedding gives each handler as a function from the request's parts and
  the state of the store to the response (and the new state of the store).

  A field of a JSON request body, once destructured, is \<^verbatim>\<open>undefined\<close> (the key is
  absent), \<^verbatim>\<open>null\<close>, or a value. The columns the handlers write are text columns, and
  the model covers the string values.
\<close>

datatype jsval = JUndefined | JNull | JStr string

text \<open>JavaScript truthiness, as \<^verbatim>\<open>!email\<close> and \<^verbatim>\<open>if (status)\<close> test it: the empty
  string is falsy like \<^verbatim>\<open>undefined\<close> and \<^verbatim>\<open>null\<close>.\<close>

fun truthy :: "jsval \<Rightarrow> bool" where
  "truthy (JStr s) = (s \<noteq> [])"
| "truthy JNull = False"
| "truthy JUndefined = False"

text \<open>\<^verbatim>\<open>req.body\<close> is an object; destructuring a key that is absent gives \<^verbatim>\<open>undefined\<close>.\<close>

type_synonym js_object = "string \<rightharpoonup> jsval"

definition js_prop :: "js_object \<Rightarrow> string \<Rightarrow> jsval" where
  "js_prop obj k = (case obj k of None \<Rightarrow> JUndefined | Some v \<Rightarrow> v)"

text \<open>
  \<^verbatim>\<open>result.rows\<close> is an array of row objects. The authentication handlers bind the array
  itself (\<^verbatim>\<open>const user = result.rows\<close>) and read a column's name from it
  (\<^verbatim>\<open>user.id\<close>, \<^verbatim>\<open>user.email\<close>, \<^verbatim>\<open>user.password_hash\<close>). An array has no property of
  such a name, so the read gives \<^verbatim>\<open>undefined\<close> (\<open>None\<close>) whatever the rows are.
\<close>

definition rows_prop :: "'row list \<Rightarrow> ('row \<Rightarrow> 'a) \<Rightarrow> 'a option" where
  "rows_prop rows col = None"

text \<open>\<^verbatim>\<open>String.prototype.split\<close> with a one-character separator: every occurrence of the
  separator ends a piece, and the result has at least one piece.\<close>

fun split_on :: "char \<Rightarrow> string \<Rightarrow> string list" where
  "split_on sep [] = [] # []"
| "split_on sep (c # cs) =
     (if c = sep then [] # split_on sep cs
      else (case split_on sep cs of [] \<Rightarrow> [c] # [] | p # ps \<Rightarrow> (c # p) # ps))"

text \<open>\<^verbatim>\<open>String.prototype.includes\<close>: the needle occurs as a contiguous piece.\<close>

fun starts_with :: "string \<Rightarrow> string \<Rightarrow> bool" where
  "starts_with s [] = True"
| "starts_with [] (n # ns) = False"
| "starts_with (c # cs) (n # ns) = (c = n \<and> starts_with cs ns)"

fun str_includes :: "string \<Rightarrow> string \<Rightarrow> bool" where
  "str_includes [] n = (n = [])"
| "str_includes (c # cs) n = (starts_with (c # cs) n \<or> str_includes cs n)"

text \<open>
  A thrown error. Every error has a message; an error of the PostgreSQL driver also
  carries the SQLSTATE code and, for a constraint violation, the constraint's name.
\<close>

record js_error =
  message :: string
  sqlstate :: "string option"
  constraint_name :: "string option"

definition plain_error :: "string \<Rightarrow> js_error" where
  "plain_error m = \<lparr>message = m, sqlstate = None, constraint_name = None\<rparr>"

definition pg_error :: "string \<Rightarrow> string \<Rightarrow> string option \<Rightarrow> js_error" where
  "pg_error st m c = \<lparr>message = m, sqlstate = Some st, constraint_name = c\<rparr>"

section \<open>The store\<close>

text \<open>
  The two relations of the \<^verbatim>\<open>CREATE TABLE\<close> statements. A column that is
  \<^verbatim>\<open>NOT NULL\<close>, or that no handler ever writes \<^verbatim>\<open>NULL\<close> to, has a plain type; a
  nullable column a handler can set to \<^verbatim>\<open>NULL\<close> is an option. Timestamps are seconds.
\<close>

record user_row =
  uid :: int
  email :: string
  password_hash :: string
  user_created_at :: int

record task_row =
  task_id :: int
  user_id :: int
  title :: string
  description :: "string option"
  category :: "string option"
  priority :: "string option"
  status :: "string option"
  suggested_deadline :: "int option"
  actual_deadline :: "int option"
  ai_analyzed :: bool
  created_at :: int
  updated_at :: int

text \<open>The state of the store: both tables and the two \<^verbatim>\<open>SERIAL\<close> sequences.\<close>

record db =
  users :: "user_row list"
  tasks :: "task_row list"
  users_seq :: int
  tasks_seq :: int

text \<open>A parameter or a value of a statement, as the driver sends it: \<^verbatim>\<open>undefined\<close> and
  \<^verbatim>\<open>null\<close> both become \<^verbatim>\<open>NULL\<close>.\<close>

datatype sqlval = SqlNull | SqlText string | SqlInt int

fun pg_value :: "jsval \<Rightarrow> sqlval" where
  "pg_value JUndefined = SqlNull"
| "pg_value JNull = SqlNull"
| "pg_value (JStr s) = SqlText s"

fun pg_int :: "int option \<Rightarrow> sqlval" where
  "pg_int None = SqlNull"
| "pg_int (Some n) = SqlInt n"

text \<open>
  \<^verbatim>\<open>pool.query\<close> either hands the statement to the store, which runs or refuses it,
  or rejects with an error that has nothing to do with the statement (the connection is
  lost, the server is down). The second case is the argument \<open>fault\<close>: when it is set
  the statement is not run.
\<close>

definition pool_query ::
  "js_error option \<Rightarrow> (db \<Rightarrow> (js_error + 'r) \<times> db) \<Rightarrow> db \<Rightarrow> (js_error + 'r) \<times> db" where
  "pool_query fault stmt d = (case fault of Some e \<Rightarrow> (Inl e, d) | None \<Rightarrow> stmt d)"

section \<open>Responses\<close>

text \<open>The \<^verbatim>\<open>user\<close> object of an authentication response; a member that is
  \<^verbatim>\<open>undefined\<close> (\<open>None\<close>) is left out of the JSON text.\<close>

record user_summary =
  summary_id :: "int option"
  summary_email :: "string option"

datatype body =
    ErrorBody string
  | AuthBody string string user_summary
  | RowsBody "task_row list"
  | ListBody "task_row list" nat
  | SuccessBody bool

record response =
  code :: nat
  body :: body

definition error_response :: "nat \<Rightarrow> string \<Rightarrow> response" where
  "error_response c m = \<lparr>code = c, body = ErrorBody m\<rparr>"

definition json_response :: "body \<Rightarrow> response" where
  "json_response b = \<lparr>code = 200, body = b\<rparr>"

section \<open>The token and password libraries\<close>

text \<open>
  The claims of a token this server signs: \<^verbatim>\<open>sub\<close> (left out of the payload when
  \<^verbatim>\<open>undefined\<close>), the time of issue and the expiry.
\<close>

record claims =
  sub :: "int option"
  iat :: int
  exp :: int

text \<open>
  The signing and hashing primitives are outside the repository and are parameters:
  signing a claim set under \<^verbatim>\<open>JWT_SECRET\<close>, checking a compact token string at a given
  time (signature and expiry), hashing a password and checking a password against a hash.
\<close>

record libs =
  sign_claims :: "claims \<Rightarrow> string"
  check_token :: "int \<Rightarrow> string \<Rightarrow> claims option"
  hash_password :: "string \<Rightarrow> string"
  check_password :: "string \<Rightarrow> string \<Rightarrow> bool"

text \<open>\<^verbatim>\<open>jwt.sign({ sub: id }, JWT_SECRET, { expiresIn: '24h' })\<close>.\<close>

definition jwt_sign :: "libs \<Rightarrow> int \<Rightarrow> int option \<Rightarrow> string" where
  "jwt_sign L now s = sign_claims L \<lparr>sub = s, iat = now, exp = now + 86400\<rparr>"

text \<open>
  The first argument of \<^verbatim>\<open>jwt.verify\<close> as the code can pass it: a string or an array of
  strings. The library throws unless it is a non-empty string, before it looks at the
  signature.
\<close>

datatype jwt_arg = TokStr string | TokArr "string list"

definition jwt_verify :: "libs \<Rightarrow> int \<Rightarrow> jwt_arg \<Rightarrow> js_error + claims" where
  "jwt_verify L now a =
     (case a of
        TokArr parts \<Rightarrow> Inl (plain_error ''jwt must be a string'')
      | TokStr s \<Rightarrow>
          (if s = [] then Inl (plain_error ''jwt must be provided'')
           else (case check_token L now s of
                   None \<Rightarrow> Inl (plain_error ''invalid token'')
                 | Some c \<Rightarrow> Inr c)))"

text \<open>\<^verbatim>\<open>bcrypt.hashSync\<close> and \<^verbatim>\<open>bcrypt.compareSync\<close> throw unless their arguments are
  strings.\<close>

definition bcrypt_hashSync :: "libs \<Rightarrow> jsval \<Rightarrow> js_error + string" where
  "bcrypt_hashSync L s =
     (case s of JStr p \<Rightarrow> Inr (hash_password L p)
      | _ \<Rightarrow> Inl (plain_error ''Illegal arguments''))"

definition bcrypt_compareSync :: "libs \<Rightarrow> jsval \<Rightarrow> string option \<Rightarrow> js_error + bool" where
  "bcrypt_compareSync L s h =
     (case (s, h) of
        (JStr p, Some hs) \<Rightarrow> Inr (check_password L p hs)
      | _ \<Rightarrow> Inl (plain_error ''Illegal arguments''))"

section \<open>Access guard\<close>

text \<open>
  \<^verbatim>\<open>verifyToken\<close>, lines 49 to 60. The header is split at spaces and the array of pieces,
  not one piece of it, is what \<^verbatim>\<open>token\<close> holds and what \<^verbatim>\<open>jwt.verify\<close> receives.
  \<open>Inr\<close> is the call of \<^verbatim>\<open>next()\<close> with \<^verbatim>\<open>req.user_id\<close> set.
\<close>

definition verifyToken :: "libs \<Rightarrow> int \<Rightarrow> string option \<Rightarrow> response + int option" where
  "verifyToken L now authorization =
     (case map_option (split_on CHR '' '') authorization of
        None \<Rightarrow> Inl (error_response 401 ''No token'')
      | Some token \<Rightarrow>
          (case jwt_verify L now (TokArr token) of
             Inl err \<Rightarrow> Inl (error_response 401 ''Invalid token'')
           | Inr decoded \<Rightarrow> Inr (sub decoded)))"

section \<open>Statements on the store\<close>

text \<open>Errors of the store, with the SQLSTATE code and the message of the server. Where
  the server ends a message with the value or the type width at fault, the message is
  given without that ending.\<close>

definition unique_violation :: "string \<Rightarrow> js_error" where
  "unique_violation c =
     pg_error ''23505''
       (''duplicate key value violates unique constraint '' @ [CHR 0x22] @ c @ [CHR 0x22])
       (Some c)"

definition not_null_violation :: "string \<Rightarrow> js_error" where
  "not_null_violation col =
     pg_error ''23502''
       (''null value in column '' @ [CHR 0x22] @ col @ [CHR 0x22]
          @ '' violates not-null constraint'')
       None"

definition datatype_mismatch :: js_error where
  "datatype_mismatch = pg_error ''42804'' ''column is of another type'' None"

definition undefined_column :: js_error where
  "undefined_column = pg_error ''42703'' ''column does not exist'' None"

definition undefined_parameter :: js_error where
  "undefined_parameter = pg_error ''42P02'' ''there is no parameter'' None"

text \<open>A comparison \<^verbatim>\<open>column = $n\<close> of a \<^verbatim>\<open>WHERE\<close> clause: it holds when both sides are
  the same value and not \<^verbatim>\<open>NULL\<close>.\<close>

definition sql_eq :: "sqlval \<Rightarrow> sqlval \<Rightarrow> bool" where
  "sql_eq a b = (a \<noteq> SqlNull \<and> a = b)"

fun sql_text :: "string option \<Rightarrow> sqlval" where
  "sql_text None = SqlNull"
| "sql_text (Some s) = SqlText s"

text \<open>
  The driver sends every parameter as text, and the store reads the text of a parameter
  that is compared with an \<^verbatim>\<open>INTEGER\<close> column as an integer: blanks, an optional sign,
  decimal digits, blanks, and a value that fits in 32 bits. Any other text is refused.
  (Servers from version 16 on also read other bases and underscores between digits; the
  model reads the decimal form, which every version reads.)
\<close>

definition invalid_text_representation :: js_error where
  "invalid_text_representation =
     pg_error ''22P02'' ''invalid input syntax for type integer'' None"

definition numeric_value_out_of_range :: js_error where
  "numeric_value_out_of_range =
     pg_error ''22003'' ''value is out of range for type integer'' None"

definition is_space :: "char \<Rightarrow> bool" where
  "is_space c = (c \<in> set [CHR '' '', CHR 0x09, CHR 0x0A, CHR 0x0B, CHR 0x0C, CHR 0x0D])"

definition is_digit :: "char \<Rightarrow> bool" where
  "is_digit c = (c \<in> set ''0123456789'')"

definition digit_value :: "char \<Rightarrow> nat" where
  "digit_value c = length (takeWhile (\<lambda>d. d \<noteq> c) ''0123456789'')"

definition decimal :: "string \<Rightarrow> nat" where
  "decimal ds = foldl (\<lambda>n c. 10 * n + digit_value c) 0 ds"

definition int4_in :: "string \<Rightarrow> js_error + int" where
  "int4_in s =
     (let s1 = dropWhile is_space s;
          negative = (case s1 of [] \<Rightarrow> False | c # r \<Rightarrow> c = CHR ''-'');
          s2 = (case s1 of [] \<Rightarrow> []
                | c # r \<Rightarrow> if c = CHR ''-'' \<or> c = CHR ''+'' then r else s1);
          digits = takeWhile is_digit s2;
          rest = dropWhile is_space (dropWhile is_digit s2);
          v = (if negative then - int (decimal digits) else int (decimal digits))
      in if digits = [] \<or> rest \<noteq> [] then Inl invalid_text_representation
         else if v < - 2147483648 \<or> 2147483647 < v then Inl numeric_value_out_of_range
         else Inr v)"

text \<open>A parameter in the place of an integer: text is read as above, a number and
  \<^verbatim>\<open>NULL\<close> are taken as they are.\<close>

definition int4_value :: "sqlval \<Rightarrow> js_error + sqlval" where
  "int4_value v =
     (case v of
        SqlText s \<Rightarrow> (case int4_in s of Inl err \<Rightarrow> Inl err | Inr n \<Rightarrow> Inr (SqlInt n))
      | SqlInt n \<Rightarrow> Inr (SqlInt n)
      | SqlNull \<Rightarrow> Inr SqlNull)"

text \<open>
  A text that is stored in a column. No text column holds the NUL character: a text with
  one is refused. In a \<^verbatim>\<open>VARCHAR(n)\<close> column a text of more than \<open>n\<close> characters is
  refused, unless the characters beyond the \<open>n\<close>-th are all spaces; then it is cut to
  \<open>n\<close> characters. The widths are those of the \<^verbatim>\<open>tasks\<close> table; \<^verbatim>\<open>description\<close> is
  \<^verbatim>\<open>TEXT\<close> and has none. The store does this to the parameters of a statement before it
  looks at any row.
\<close>

definition character_not_in_repertoire :: js_error where
  "character_not_in_repertoire =
     pg_error ''22021''
       (''invalid byte sequence for encoding '' @ [CHR 0x22] @ ''UTF8'' @ [CHR 0x22]
          @ '': 0x00'')
       None"

definition has_nul :: "string \<Rightarrow> bool" where
  "has_nul s = (CHR 0x00 \<in> set s)"

definition string_data_right_truncation :: js_error where
  "string_data_right_truncation =
     pg_error ''22001'' ''value too long for type character varying'' None"

definition varchar :: "nat \<Rightarrow> string \<Rightarrow> js_error + string" where
  "varchar n s =
     (if length s \<le> n then Inr s
      else if list_all (\<lambda>c. c = CHR '' '') (drop n s) then Inr (take n s)
      else Inl string_data_right_truncation)"

definition column_width :: "string \<Rightarrow> nat option" where
  "column_width col =
     (if col = ''title'' then Some 255
      else if col = ''category'' then Some 100
      else if col = ''priority'' then Some 50
      else if col = ''status'' then Some 50
      else None)"

definition coerce_column :: "string \<Rightarrow> sqlval \<Rightarrow> js_error + sqlval" where
  "coerce_column col v =
     (case v of
        SqlText s \<Rightarrow>
          if has_nul s then Inl character_not_in_repertoire
          else
            (case column_width col of
               None \<Rightarrow> Inr (SqlText s)
             | Some n \<Rightarrow>
                 (case varchar n s of Inl err \<Rightarrow> Inl err | Inr s' \<Rightarrow> Inr (SqlText s')))
      | SqlInt n \<Rightarrow> Inr (SqlInt n)
      | SqlNull \<Rightarrow> Inr SqlNull)"

fun coerce_assignments ::
  "(string \<times> sqlval) list \<Rightarrow> js_error + (string \<times> sqlval) list" where
  "coerce_assignments [] = Inr []"
| "coerce_assignments ((col, v) # rest) =
     (case coerce_column col v of
        Inl err \<Rightarrow> Inl err
      | Inr v' \<Rightarrow>
          (case coerce_assignments rest of
             Inl err \<Rightarrow> Inl err
           | Inr vs \<Rightarrow> Inr ((col, v') # vs)))"

text \<open>
  \<^verbatim>\<open>INSERT INTO users (email, password_hash) VALUES ($1, $2) RETURNING id, email\<close>.
  \<^verbatim>\<open>email\<close> is \<^verbatim>\<open>VARCHAR(255) UNIQUE NOT NULL\<close>: an email that cannot be stored
  or does not fit is refused before anything else happens. The id comes from the sequence, which advances
  also when the row is then refused; \<^verbatim>\<open>id\<close> is the primary key and \<^verbatim>\<open>password_hash\<close> is
  \<^verbatim>\<open>NOT NULL\<close>. (The hash \<^verbatim>\<open>bcrypt\<close> returns has 60 characters, so the width of
  \<^verbatim>\<open>password_hash\<close> is never reached.)
\<close>

record returned_user =
  returned_id :: int
  returned_email :: string

definition insert_user ::
  "sqlval \<Rightarrow> sqlval \<Rightarrow> int \<Rightarrow> db \<Rightarrow> (js_error + returned_user list) \<times> db" where
  "insert_user em ph now d =
     (let i = users_seq d + 1; d1 = d\<lparr>users_seq := i\<rparr> in
      case em of
        SqlNull \<Rightarrow> (Inl (not_null_violation ''email''), d1)
      | SqlInt n \<Rightarrow> (Inl datatype_mismatch, d)
      | SqlText e0 \<Rightarrow>
          (case (if has_nul e0 then Inl character_not_in_repertoire else varchar 255 e0) of
             Inl err \<Rightarrow> (Inl err, d)
           | Inr e \<Rightarrow>
               (case ph of
                  SqlNull \<Rightarrow> (Inl (not_null_violation ''password_hash''), d1)
                | SqlInt n \<Rightarrow> (Inl datatype_mismatch, d)
                | SqlText h \<Rightarrow>
                    if i \<in> set (map uid (users d))
                    then (Inl (unique_violation ''users_pkey''), d1)
                    else if e \<in> set (map email (users d))
                    then (Inl (unique_violation ''users_email_key''), d1)
                    else (Inr [\<lparr>returned_id = i, returned_email = e\<rparr>],
                          d1\<lparr>users := users d
                               @ [\<lparr>uid = i, email = e, password_hash = h,
                                   user_created_at = now\<rparr>]\<rparr>))))"

text \<open>\<^verbatim>\<open>SELECT * FROM users WHERE email = $1\<close>.\<close>

definition select_user_by_email :: "sqlval \<Rightarrow> db \<Rightarrow> (js_error + user_row list) \<times> db" where
  "select_user_by_email em d =
     (Inr (filter (\<lambda>u. sql_eq (SqlText (email u)) em) (users d)), d)"




text \<open>The \<^verbatim>\<open>WHERE id = $a AND user_id = $b\<close> of the statements on one task, once both
  parameters are read as integers.\<close>

definition task_matches :: "sqlval \<Rightarrow> sqlval \<Rightarrow> task_row \<Rightarrow> bool" where
  "task_matches i u t = (sql_eq (SqlInt (task_id t)) i \<and> sql_eq (SqlInt (user_id t)) u)"


text \<open>\<^verbatim>\<open>DELETE FROM tasks WHERE id = $1 AND user_id = $2\<close>.\<close>

definition delete_task_row :: "sqlval \<Rightarrow> sqlval \<Rightarrow> db \<Rightarrow> (js_error + unit) \<times> db" where
  "delete_task_row id_text user_number d =
     (case int4_value id_text of
        Inl err \<Rightarrow> (Inl err, d)
      | Inr i \<Rightarrow>
          (case int4_value user_number of
             Inl err \<Rightarrow> (Inl err, d)
           | Inr u \<Rightarrow>
               (Inr (), d\<lparr>tasks := filter (\<lambda>t. \<not> task_matches i u t) (tasks d)\<rparr>)))"

text \<open>
  The dynamic \<^verbatim>\<open>UPDATE tasks SET ... WHERE id = $a AND user_id = $b RETURNING *\<close>.
  The right-hand side of an assignment is a placeholder \<^verbatim>\<open>$n\<close>, which stands for the
  \<open>n\<close>-th parameter counted from 1, or \<^verbatim>\<open>CURRENT_TIMESTAMP\<close>. The store reads the id
  as an integer and fits every value to its column, and refuses the statement when one
  of these fails, whether or not a row matches; then it rewrites the matching rows.
\<close>

datatype sql_expr = Placeholder nat | CurrentTimestamp

fun eval_expr :: "sqlval list \<Rightarrow> int \<Rightarrow> sql_expr \<Rightarrow> js_error + sqlval" where
  "eval_expr ps now (Placeholder n) =
     (if 1 \<le> n \<and> n \<le> length ps then Inr (ps ! (n - 1)) else Inl undefined_parameter)"
| "eval_expr ps now CurrentTimestamp = Inr (SqlInt now)"

fun eval_assignments ::
  "sqlval list \<Rightarrow> int \<Rightarrow> (string \<times> sql_expr) list \<Rightarrow> js_error + (string \<times> sqlval) list" where
  "eval_assignments ps now [] = Inr []"
| "eval_assignments ps now ((col, e) # rest) =
     (case eval_expr ps now e of
        Inl err \<Rightarrow> Inl err
      | Inr v \<Rightarrow>
          (case eval_assignments ps now rest of
             Inl err \<Rightarrow> Inl err
           | Inr vs \<Rightarrow> Inr ((col, v) # vs)))"

text \<open>
  Writing one column of a row. The value is one that \<open>coerce_column\<close> has already
  fitted to the width of the column: the statement below applies it to every value before
  it writes any row. \<^verbatim>\<open>title\<close> is \<^verbatim>\<open>NOT NULL\<close>; the other four text columns take
  \<^verbatim>\<open>NULL\<close>. A value of the wrong kind for the column is refused (the handler never sends
  one).
\<close>

definition set_column :: "string \<Rightarrow> sqlval \<Rightarrow> task_row \<Rightarrow> js_error + task_row" where
  "set_column col v t =
     (if col = ''title'' then
        (case v of SqlText s \<Rightarrow> Inr (t\<lparr>title := s\<rparr>)
         | SqlNull \<Rightarrow> Inl (not_null_violation ''title'')
         | SqlInt n \<Rightarrow> Inl datatype_mismatch)
      else if col = ''description'' then
        (case v of SqlText s \<Rightarrow> Inr (t\<lparr>description := Some s\<rparr>)
         | SqlNull \<Rightarrow> Inr (t\<lparr>description := None\<rparr>)
         | SqlInt n \<Rightarrow> Inl datatype_mismatch)
      else if col = ''category'' then
        (case v of SqlText s \<Rightarrow> Inr (t\<lparr>category := Some s\<rparr>)
         | SqlNull \<Rightarrow> Inr (t\<lparr>category := None\<rparr>)
         | SqlInt n \<Rightarrow> Inl datatype_mismatch)
      else if col = ''priority'' then
        (case v of SqlText s \<Rightarrow> Inr (t\<lparr>priority := Some s\<rparr>)
         | SqlNull \<Rightarrow> Inr (t\<lparr>priority := None\<rparr>)
         | SqlInt n \<Rightarrow> Inl datatype_mismatch)
      else if col = ''status'' then
        (case v of SqlText s \<Rightarrow> Inr (t\<lparr>status := Some s\<rparr>)
         | SqlNull \<Rightarrow> Inr (t\<lparr>status := None\<rparr>)
         | SqlInt n \<Rightarrow> Inl datatype_mismatch)
      else if col = ''updated_at'' then
        (case v of SqlInt n \<Rightarrow> Inr (t\<lparr>updated_at := n\<rparr>)
         | SqlNull \<Rightarrow> Inl datatype_mismatch
         | SqlText s \<Rightarrow> Inl datatype_mismatch)
      else Inl undefined_column)"

fun set_columns :: "(string \<times> sqlval) list \<Rightarrow> task_row \<Rightarrow> js_error + task_row" where
  "set_columns [] t = Inr t"
| "set_columns ((col, v) # rest) t =
     (case set_column col v t of
        Inl err \<Rightarrow> Inl err
      | Inr t' \<Rightarrow> set_columns rest t')"

text \<open>The rows of the table in order: a row the \<^verbatim>\<open>WHERE\<close> clause selects is rewritten
  and returned, any other row is kept. One refused row fails the whole statement.\<close>

fun update_rows ::
  "(task_row \<Rightarrow> bool) \<Rightarrow> (string \<times> sqlval) list \<Rightarrow> task_row list
     \<Rightarrow> js_error + (task_row list \<times> task_row list)" where
  "update_rows sel vs [] = Inr ([], [])"
| "update_rows sel vs (t # ts) =
     (if sel t then
        (case set_columns vs t of
           Inl err \<Rightarrow> Inl err
         | Inr t' \<Rightarrow>
             (case update_rows sel vs ts of
                Inl err \<Rightarrow> Inl err
              | Inr (returned, ts') \<Rightarrow> Inr (t' # returned, t' # ts')))
      else
        (case update_rows sel vs ts of
           Inl err \<Rightarrow> Inl err
         | Inr (returned, ts') \<Rightarrow> Inr (returned, t # ts')))"

definition update_tasks ::
  "(string \<times> sql_expr) list \<Rightarrow> sql_expr \<Rightarrow> sql_expr \<Rightarrow> sqlval list \<Rightarrow> int \<Rightarrow> db
     \<Rightarrow> (js_error + task_row list) \<times> db" where
  "update_tasks sets id_expr user_expr ps now d =
     (case eval_assignments ps now sets of
        Inl err \<Rightarrow> (Inl err, d)
      | Inr sent_values \<Rightarrow>
          (case eval_expr ps now id_expr of
             Inl err \<Rightarrow> (Inl err, d)
           | Inr id_text \<Rightarrow>
               (case eval_expr ps now user_expr of
                  Inl err \<Rightarrow> (Inl err, d)
                | Inr user_number \<Rightarrow>
                    (case int4_value id_text of
                       Inl err \<Rightarrow> (Inl err, d)
                     | Inr i \<Rightarrow>
                         (case int4_value user_number of
                            Inl err \<Rightarrow> (Inl err, d)
                          | Inr u \<Rightarrow>
                              (case coerce_assignments sent_values of
                                 Inl err \<Rightarrow> (Inl err, d)
                               | Inr vs \<Rightarrow>
                                   (case update_rows (task_matches i u) vs (tasks d) of
                                      Inl err \<Rightarrow> (Inl err, d)
                                    | Inr (returned, ts') \<Rightarrow>
                                        (Inr returned, d\<lparr>tasks := ts'\<rparr>))))))))"

section \<open>Auth service\<close>

text \<open>
  The \<^verbatim>\<open>catch\<close> block of the registration handler, lines 86 to 91: the error is an
  email conflict when its message contains \<^verbatim>\<open>duplicate\<close>.
\<close>

definition register_catch :: "js_error \<Rightarrow> response" where
  "register_catch err =
     (if str_includes (message err) ''duplicate''
      then error_response 400 ''Email already exists''
      else error_response 500 ''Registration failed'')"

text \<open>
  \<^verbatim>\<open>POST /api/auth/register\<close>, lines 65 to 92. \<^verbatim>\<open>user\<close> is bound to \<^verbatim>\<open>result.rows\<close>,
  so \<^verbatim>\<open>user.id\<close> and \<^verbatim>\<open>user.email\<close> are reads on the array.
\<close>

definition register ::
  "libs \<Rightarrow> int \<Rightarrow> js_error option \<Rightarrow> db \<Rightarrow> jsval \<Rightarrow> jsval \<Rightarrow> response \<times> db" where
  "register L now fault d email_v password_v =
     (if \<not> truthy email_v \<or> \<not> truthy password_v
      then (error_response 400 ''Email and password required'', d)
      else
        (case bcrypt_hashSync L password_v of
           Inl err \<Rightarrow> (register_catch err, d)
         | Inr passwordHash \<Rightarrow>
             (case pool_query fault
                     (insert_user (pg_value email_v) (SqlText passwordHash) now) d of
                (Inl err, d') \<Rightarrow> (register_catch err, d')
              | (Inr rows, d') \<Rightarrow>
                  (let user = rows;
                       token = jwt_sign L now (rows_prop user returned_id)
                   in (json_response
                         (AuthBody token ''bearer''
                            \<lparr>summary_id = rows_prop user returned_id,
                             summary_email = rows_prop user returned_email\<rparr>),
                       d')))))"

text \<open>
  \<^verbatim>\<open>POST /api/auth/login\<close>, lines 95 to 128. Here too \<^verbatim>\<open>user\<close> is \<^verbatim>\<open>result.rows\<close>, and
  the hash handed to \<^verbatim>\<open>bcrypt.compareSync\<close> is \<^verbatim>\<open>user.password_hash\<close> read on the array.
  The handler does not write to the store.
\<close>

definition login ::
  "libs \<Rightarrow> int \<Rightarrow> js_error option \<Rightarrow> db \<Rightarrow> jsval \<Rightarrow> jsval \<Rightarrow> response" where
  "login L now fault d email_v password_v =
     (if \<not> truthy email_v \<or> \<not> truthy password_v
      then error_response 400 ''Email and password required''
      else
        (case fst (pool_query fault (select_user_by_email (pg_value email_v)) d) of
           Inl err \<Rightarrow> error_response 500 ''Login failed''
         | Inr rows \<Rightarrow>
             if length rows = 0 then error_response 401 ''Invalid credentials''
             else
               (let user = rows in
                case bcrypt_compareSync L password_v (rows_prop user password_hash) of
                  Inl err \<Rightarrow> error_response 500 ''Login failed''
                | Inr passwordMatch \<Rightarrow>
                    if \<not> passwordMatch then error_response 401 ''Invalid credentials''
                    else
                      json_response
                        (AuthBody (jwt_sign L now (rows_prop user uid)) ''bearer''
                           \<lparr>summary_id = rows_prop user uid,
                            summary_email = rows_prop user email\<rparr>))))"

section \<open>Task service\<close>



text \<open>
  \<^verbatim>\<open>PATCH /api/tasks/:id\<close>, lines 187 to 240. The handler collects the assignments, the
  parameters and the number of the next placeholder; a field adds its assignment when it
  is not \<^verbatim>\<open>undefined\<close>.
\<close>

record update_build =
  updates :: "(string \<times> sql_expr) list"
  params :: "sqlval list"
  paramCount :: nat

definition push_update :: "string \<Rightarrow> jsval \<Rightarrow> update_build \<Rightarrow> update_build" where
  "push_update col v b =
     (if v \<noteq> JUndefined
      then \<lparr>updates = updates b @ [(col, Placeholder (paramCount b))],
            params = params b @ [pg_value v],
            paramCount = paramCount b + 1\<rparr>
      else b)"

definition patch_fields :: "string list" where
  "patch_fields = [''title'', ''description'', ''category'', ''priority'', ''status'']"

definition build_updates :: "js_object \<Rightarrow> update_build" where
  "build_updates req_body =
     fold (\<lambda>col. push_update col (js_prop req_body col)) patch_fields
       \<lparr>updates = [], params = [], paramCount = 1\<rparr>"

definition update_task ::
  "js_error option \<Rightarrow> int \<Rightarrow> db \<Rightarrow> int option \<Rightarrow> string \<Rightarrow> js_object \<Rightarrow> response \<times> db"
  where
  "update_task fault now d req_user_id id_param req_body =
     (let b = build_updates req_body in
      if length (updates b) = 0 then (error_response 400 ''No updates provided'', d)
      else
        (let sets = updates b @ [(''updated_at'', CurrentTimestamp)];
             ps = params b @ [SqlText id_param] @ [pg_int req_user_id]
         in case pool_query fault
                   (update_tasks sets (Placeholder (paramCount b))
                      (Placeholder (paramCount b + 1)) ps now) d of
              (Inl err, d') \<Rightarrow> (error_response 500 ''Update failed'', d')
            | (Inr rows, d') \<Rightarrow>
                if length rows = 0 then (error_response 404 ''Task not found'', d')
                else (json_response (RowsBody rows), d')))"

text \<open>\<^verbatim>\<open>DELETE /api/tasks/:id\<close>, lines 243 to 253.\<close>

definition delete_task ::
  "js_error option \<Rightarrow> db \<Rightarrow> int option \<Rightarrow> string \<Rightarrow> response \<times> db" where
  "delete_task fault d req_user_id id_param =
     (case pool_query fault (delete_task_row (SqlText id_param) (pg_int req_user_id)) d of
        (Inl err, d') \<Rightarrow> (error_response 500 ''Delete failed'', d')
      | (Inr ok, d') \<Rightarrow> (json_response (SuccessBody True), d'))"

section \<open>Reading the model\<close>

text \<open>The value of a column a patch can write, read by the column's name.\<close>

definition column :: "string \<Rightarrow> task_row \<Rightarrow> sqlval" where
  "column col t =
     (if col = ''title'' then SqlText (title t)
      else if col = ''description'' then sql_text (description t)
      else if col = ''category'' then sql_text (category t)
      else if col = ''priority'' then sql_text (priority t)
      else if col = ''status'' then sql_text (status t)
      else if col = ''updated_at'' then SqlInt (updated_at t)
      else SqlNull)"

text \<open>The columns no assignment of the update statement names.\<close>

definition same_fixed_columns :: "task_row \<Rightarrow> task_row \<Rightarrow> bool" where
  "same_fixed_columns t t' =
     (task_id t' = task_id t \<and> user_id t' = user_id t \<and> created_at t' = created_at t
      \<and> suggested_deadline t' = suggested_deadline t
      \<and> actual_deadline t' = actual_deadline t \<and> ai_analyzed t' = ai_analyzed t)"

text \<open>The condition the specification asks the registration handler to detect: the
  failure is the violation of the uniqueness constraint on \<^verbatim>\<open>users.email\<close>.\<close>

definition email_uniqueness_violation :: "js_error \<Rightarrow> bool" where
  "email_uniqueness_violation err =
     (sqlstate err = Some ''23505'' \<and> constraint_name err = Some ''users_email_key'')"

text \<open>A field of the patch is present when its value is not \<^verbatim>\<open>undefined\<close>; the fields
  that are present, in the handler's order, each with the value the driver sends.\<close>

definition present :: "js_object \<Rightarrow> string \<Rightarrow> bool" where
  "present req_body f = (js_prop req_body f \<noteq> JUndefined)"

definition sent :: "js_object \<Rightarrow> string list \<Rightarrow> (string \<times> sqlval) list" where
  "sent req_body fs =
     map (\<lambda>f. (f, pg_value (js_prop req_body f))) (filter (present req_body) fs)"

text \<open>A field of the patch whose value the store refuses (it holds the NUL character,
  or it is too long for its column), and a patch with such a field.\<close>

definition refused_value :: "js_object \<Rightarrow> string \<Rightarrow> bool" where
  "refused_value req_body f =
     (case coerce_column f (pg_value (js_prop req_body f)) of
        Inl err \<Rightarrow> True
      | Inr v \<Rightarrow> False)"

definition refuses_patch :: "js_object \<Rightarrow> bool" where
  "refuses_patch req_body = list_ex (refused_value req_body) patch_fields"

section \<open>Example states\<close>

text \<open>A stand-in for the two libraries, and small states of the store, on which the
  handlers are run in the examples below.\<close>

definition test_libs :: libs where
  "test_libs =
     \<lparr>sign_claims = (\<lambda>c. (case sub c of None \<Rightarrow> ''token-without-sub''
                                | Some n \<Rightarrow> ''token-with-sub'')),
      check_token = (\<lambda>now tok. if tok = ''token-with-sub'' \<and> now < 86400
                               then Some \<lparr>sub = Some 1, iat = 0, exp = 86400\<rparr> else None),
      hash_password = (\<lambda>p. ''hash-of-'' @ p),
      check_password = (\<lambda>p h. h = ''hash-of-'' @ p)\<rparr>"

definition empty_db :: db where
  "empty_db = \<lparr>users = [], tasks = [], users_seq = 0, tasks_seq = 0\<rparr>"

definition alice :: user_row where
  "alice = \<lparr>uid = 1, email = ''a@x.com'', password_hash = ''hash-of-pw1'',
            user_created_at = 100\<rparr>"

definition bob :: user_row where
  "bob = \<lparr>uid = 2, email = ''b@x.com'', password_hash = ''hash-of-pw2'',
          user_created_at = 150\<rparr>"

definition alice_task :: task_row where
  "alice_task =
     \<lparr>task_id = 1, user_id = 1, title = ''buy milk'', description = None, category = None,
      priority = Some ''MEDIUM'', status = Some ''TODO'', suggested_deadline = None,
      actual_deadline = None, ai_analyzed = False, created_at = 200, updated_at = 200\<rparr>"

definition bob_task :: task_row where
  "bob_task =
     \<lparr>task_id = 2, user_id = 2, title = ''pay rent'', description = Some ''before Friday'',
      category = None, priority = Some ''MEDIUM'', status = Some ''TODO'',
      suggested_deadline = None, actual_deadline = None, ai_analyzed = False,
      created_at = 300, updated_at = 300\<rparr>"

definition alice_done_task :: task_row where
  "alice_done_task =
     \<lparr>task_id = 3, user_id = 1, title = ''call home'', description = Some ''on Sunday'',
      category = Some ''family'', priority = Some ''MEDIUM'', status = Some ''DONE'',
      suggested_deadline = None, actual_deadline = None, ai_analyzed = False,
      created_at = 400, updated_at = 450\<rparr>"

definition sample_db :: db where
  "sample_db =
     \<lparr>users = [alice, bob], tasks = [alice_task, bob_task, alice_done_task],
      users_seq = 2, tasks_seq = 3\<rparr>"

text \<open>A store whose \<^verbatim>\<open>users\<close> sequence lags behind the ids in the table, as after rows
  were loaded with their ids: the next id the sequence gives is taken.\<close>

definition lagging_db :: db where
  "lagging_db = \<lparr>users = [bob], tasks = [], users_seq = 1, tasks_seq = 0\<rparr>"

section \<open>The string helpers\<close>

text \<open>The two helpers agree with their descriptions: \<^verbatim>\<open>includes\<close> finds a contiguous
  piece, and the pieces of \<^verbatim>\<open>split\<close>, each behind a separator, give the string back.\<close>

lemma starts_with_iff: "starts_with s n \<longleftrightarrow> (\<exists>q. s = n @ q)"
  by (induction s n rule: starts_with.induct) auto

lemma str_includes_iff: "str_includes s n \<longleftrightarrow> (\<exists>p q. s = p @ n @ q)"
proof (induction s)
  case Nil
  then show ?case by simp
next
  case (Cons c cs)
  show ?case
  proof
    assume "str_includes (c # cs) n"
    then consider "starts_with (c # cs) n" | "str_includes cs n" by auto
    then show "\<exists>p q. c # cs = p @ n @ q"
    proof cases
      case 1
      then obtain q where "c # cs = n @ q" by (auto simp: starts_with_iff)
      then have "c # cs = [] @ n @ q" by simp
      then show ?thesis by blast
    next
      case 2
      with Cons.IH obtain p q where "cs = p @ n @ q" by blast
      then have "c # cs = (c # p) @ n @ q" by simp
      then show ?thesis by blast
    qed
  next
    assume "\<exists>p q. c # cs = p @ n @ q"
    then obtain p q where pq: "c # cs = p @ n @ q" by blast
    show "str_includes (c # cs) n"
    proof (cases "p = []")
      case True
      with pq have "starts_with (c # cs) n" by (auto simp: starts_with_iff)
      then show ?thesis by simp
    next
      case False
      then obtain a p' where "p = a # p'" by (cases p) auto
      with pq have "cs = p' @ n @ q" by simp
      with Cons.IH have "str_includes cs n" by blast
      then show ?thesis by simp
    qed
  qed
qed

lemma split_on_join:
  "concat (map (\<lambda>p. sep # p) (split_on sep s)) = sep # s"
  by (induction s) (auto split: list.splits)

section \<open>The update statement the handler builds\<close>

lemma eval_assignments_append:
  "eval_assignments ps now (xs @ ys) =
     (case eval_assignments ps now xs of
        Inl err \<Rightarrow> Inl err
      | Inr vs \<Rightarrow>
          (case eval_assignments ps now ys of
             Inl err \<Rightarrow> Inl err
           | Inr ws \<Rightarrow> Inr (vs @ ws)))"
  by (induction xs) (auto split: sum.splits)

text \<open>
  The invariant of the five steps: \<^verbatim>\<open>paramCount\<close> is one more than the number of
  parameters pushed, and each placeholder written so far names the parameter pushed with
  it, whatever is pushed afterwards.
\<close>

lemma fold_push_update:
  assumes "paramCount b = length (params b) + 1"
      and "\<And>extra. eval_assignments (params b @ extra) now (updates b) = Inr vs"
  shows "paramCount (fold (\<lambda>col. push_update col (js_prop req_body col)) fs b)
           = length (params (fold (\<lambda>col. push_update col (js_prop req_body col)) fs b)) + 1
       \<and> (\<forall>extra. eval_assignments
             (params (fold (\<lambda>col. push_update col (js_prop req_body col)) fs b) @ extra) now
             (updates (fold (\<lambda>col. push_update col (js_prop req_body col)) fs b))
           = Inr (vs @ sent req_body fs))
       \<and> map fst (updates (fold (\<lambda>col. push_update col (js_prop req_body col)) fs b))
           = map fst (updates b) @ filter (present req_body) fs"
  using assms
proof (induction fs arbitrary: b vs)
  case Nil
  then show ?case by (simp add: sent_def)
next
  case (Cons f fs)
  show ?case
  proof (cases "present req_body f")
    case False
    then have "push_update f (js_prop req_body f) b = b"
      by (simp add: push_update_def present_def)
    with Cons False show ?thesis by (simp add: sent_def)
  next
    case True
    let ?b = "push_update f (js_prop req_body f) b"
    from True have b: "?b = \<lparr>updates = updates b @ [(f, Placeholder (paramCount b))],
            params = params b @ [pg_value (js_prop req_body f)],
            paramCount = paramCount b + 1\<rparr>"
      by (simp add: push_update_def present_def)
    have c: "paramCount ?b = length (params ?b) + 1"
      using Cons.prems(1) by (simp add: b)
    have e: "eval_assignments (params ?b @ extra) now (updates ?b)
               = Inr (vs @ [(f, pg_value (js_prop req_body f))])" for extra
      using Cons.prems(2) [of "pg_value (js_prop req_body f) # extra"] Cons.prems(1)
      by (simp add: b eval_assignments_append nth_append)
    from Cons.IH [OF c e] True show ?thesis
      by (simp add: sent_def b)
  qed
qed

section \<open>Writing columns\<close>

lemma task_matches_iff:
  "task_matches (SqlInt i) (pg_int u) t \<longleftrightarrow> task_id t = i \<and> Some (user_id t) = u"
  by (cases u) (auto simp: task_matches_def sql_eq_def)

lemma set_column_value:
  "set_column c v t = Inr t' \<Longrightarrow> column c t' = v"
  by (auto simp: set_column_def column_def split: if_splits sqlval.splits)

lemma set_column_fixed:
  "set_column c v t = Inr t' \<Longrightarrow> same_fixed_columns t t'"
  by (auto simp: set_column_def same_fixed_columns_def split: if_splits sqlval.splits)

lemma set_column_keeps:
  "set_column c v t = Inr t' \<Longrightarrow>
     (c \<noteq> ''title'' \<longrightarrow> title t' = title t)
   \<and> (c \<noteq> ''description'' \<longrightarrow> description t' = description t)
   \<and> (c \<noteq> ''category'' \<longrightarrow> category t' = category t)
   \<and> (c \<noteq> ''priority'' \<longrightarrow> priority t' = priority t)
   \<and> (c \<noteq> ''status'' \<longrightarrow> status t' = status t)
   \<and> (c \<noteq> ''updated_at'' \<longrightarrow> updated_at t' = updated_at t)"
  by (auto simp: set_column_def split: if_splits sqlval.splits)

lemma set_column_other:
  assumes "set_column c v t = Inr t'" and "c' \<noteq> c"
  shows "column c' t' = column c' t"
proof (cases "c' \<in> set [''title'', ''description'', ''category'', ''priority'', ''status'',
    ''updated_at'']")
  case False
  then show ?thesis by (simp add: column_def)
next
  case True
  then have "c' = ''title'' \<or> c' = ''description'' \<or> c' = ''category''
      \<or> c' = ''priority'' \<or> c' = ''status'' \<or> c' = ''updated_at''"
    by simp
  moreover have "c \<noteq> c'" using assms(2) by simp
  ultimately show ?thesis
    using set_column_keeps [OF assms(1)]
    by (elim disjE) (simp_all add: column_def)
qed

lemma set_columns_append:
  "set_columns (xs @ ys) t =
     (case set_columns xs t of Inl err \<Rightarrow> Inl err | Inr t' \<Rightarrow> set_columns ys t')"
  by (induction xs arbitrary: t) (auto split: sum.splits)

lemma same_fixed_columns_trans:
  "same_fixed_columns a b \<Longrightarrow> same_fixed_columns b c \<Longrightarrow> same_fixed_columns a c"
  by (simp add: same_fixed_columns_def)

lemma set_columns_fixed:
  "set_columns vs t = Inr t' \<Longrightarrow> same_fixed_columns t t'"
proof (induction vs arbitrary: t)
  case Nil
  then show ?case by (simp add: same_fixed_columns_def)
next
  case (Cons a vs)
  obtain c0 v0 where a: "a = (c0, v0)" by (cases a)
  from Cons.prems a obtain t1 where
    t1: "set_column c0 v0 t = Inr t1" "set_columns vs t1 = Inr t'"
    by (auto split: sum.splits)
  show ?case
    using set_column_fixed [OF t1(1)] Cons.IH [OF t1(2)]
    by (rule same_fixed_columns_trans)
qed

lemma set_columns_other:
  "set_columns vs t = Inr t' \<Longrightarrow> c \<notin> fst ` set vs \<Longrightarrow> column c t' = column c t"
proof (induction vs arbitrary: t)
  case Nil
  then show ?case by simp
next
  case (Cons a vs)
  obtain c0 v0 where a: "a = (c0, v0)" by (cases a)
  from Cons.prems(1) a obtain t1 where
    t1: "set_column c0 v0 t = Inr t1" "set_columns vs t1 = Inr t'"
    by (auto split: sum.splits)
  from Cons.prems(2) a have n: "c \<noteq> c0" "c \<notin> fst ` set vs" by auto
  show ?case
    using Cons.IH [OF t1(2) n(2)] set_column_other [OF t1(1) n(1)] by simp
qed

lemma set_columns_value:
  "set_columns vs t = Inr t' \<Longrightarrow> distinct (map fst vs) \<Longrightarrow> (c, v) \<in> set vs
     \<Longrightarrow> column c t' = v"
proof (induction vs arbitrary: t)
  case Nil
  then show ?case by simp
next
  case (Cons a vs)
  obtain c0 v0 where a: "a = (c0, v0)" by (cases a)
  from Cons.prems(1) a obtain t1 where
    t1: "set_column c0 v0 t = Inr t1" "set_columns vs t1 = Inr t'"
    by (auto split: sum.splits)
  from Cons.prems(2) a have d: "distinct (map fst vs)" "c0 \<notin> fst ` set vs" by auto
  show ?case
  proof (cases "(c, v) \<in> set vs")
    case True
    then show ?thesis using Cons.IH [OF t1(2) d(1)] by simp
  next
    case False
    with Cons.prems(3) a have cv: "c = c0" "v = v0" by auto
    have "column c0 t' = column c0 t1"
      using set_columns_other [OF t1(2) d(2)] .
    then show ?thesis using set_column_value [OF t1(1)] cv by simp
  qed
qed


lemma update_rows_result:
  "update_rows sel vs ts = Inr (ret, ts') \<Longrightarrow>
     list_all2 (\<lambda>t t'. if sel t then set_columns vs t = Inr t' else t' = t) ts ts'"
proof (induction ts arbitrary: ret ts')
  case Nil
  then show ?case by simp
next
  case (Cons t ts)
  show ?case
  proof (cases "sel t")
    case True
    with Cons.prems obtain t1 r1 ts1 where
      s: "set_columns vs t = Inr t1" "update_rows sel vs ts = Inr (r1, ts1)" "ts' = t1 # ts1"
      by (auto split: sum.splits prod.splits)
    from Cons.IH [OF s(2)] s(1) s(3) True show ?thesis by simp
  next
    case False
    with Cons.prems obtain r1 ts1 where
      s: "update_rows sel vs ts = Inr (r1, ts1)" "ts' = t # ts1"
      by (auto split: sum.splits prod.splits)
    from Cons.IH [OF s(1)] s(2) False show ?thesis by simp
  qed
qed

lemma update_rows_returned:
  assumes "update_rows sel vs ts = Inr (ret, ts')"
      and "\<And>t t'. set_columns vs t = Inr t' \<Longrightarrow> sel t' = sel t"
  shows "ret = filter sel ts'"
  using assms(1)
proof (induction ts arbitrary: ret ts')
  case Nil
  then show ?case by simp
next
  case (Cons t ts)
  then show ?case
    by (auto split: if_splits sum.splits prod.splits simp: assms(2))
qed


lemma update_rows_refused:
  assumes "\<And>t. \<exists>err. set_columns vs t = Inl err" and "\<exists>t\<in>set ts. sel t"
  shows "\<exists>err. update_rows sel vs ts = Inl err"
  using assms(2)
proof (induction ts)
  case Nil
  then show ?case by simp
next
  case (Cons t ts)
  show ?case
  proof (cases "sel t")
    case True
    with assms(1) [of t] show ?thesis by auto
  next
    case False
    with Cons.prems have "\<exists>t\<in>set ts. sel t" by simp
    from Cons.IH [OF this] False show ?thesis by auto
  qed
qed

lemma update_rows_accepted:
  assumes "\<And>t. \<exists>t'. set_columns vs t = Inr t'"
  shows "\<exists>ret ts'. update_rows sel vs ts = Inr (ret, ts')"
proof (induction ts)
  case Nil
  then show ?case by simp
next
  case (Cons t ts)
  then obtain ret ts' where "update_rows sel vs ts = Inr (ret, ts')" by blast
  with assms [of t] show ?case by auto
qed

lemma build_updates_facts:
  "paramCount (build_updates req_body) = length (params (build_updates req_body)) + 1"
  "eval_assignments (params (build_updates req_body) @ extra) now
     (updates (build_updates req_body)) = Inr (sent req_body patch_fields)"
  "map fst (updates (build_updates req_body)) = filter (present req_body) patch_fields"
  using fold_push_update [of "\<lparr>updates = [], params = [], paramCount = 1\<rparr>" now "[]"
      req_body patch_fields]
  by (simp_all add: build_updates_def)

lemma updates_empty_iff:
  "updates (build_updates req_body) = []
     \<longleftrightarrow> \<not> (\<exists>f\<in>set patch_fields. present req_body f)"
proof -
  have "updates (build_updates req_body) = []
          \<longleftrightarrow> map fst (updates (build_updates req_body)) = []" by simp
  also have "\<dots> \<longleftrightarrow> filter (present req_body) patch_fields = []"
    by (simp only: build_updates_facts(3))
  finally show ?thesis by (simp add: filter_empty_conv)
qed

lemma int4_value_pg_int: "int4_value (pg_int u) = Inr (pg_int u)"
  by (cases u) (simp_all add: int4_value_def)

lemma int4_value_text:
  "int4_value (SqlText s) = (case int4_in s of Inl err \<Rightarrow> Inl err | Inr n \<Rightarrow> Inr (SqlInt n))"
  by (simp add: int4_value_def)

lemma coerce_column_simps:
  "coerce_column c SqlNull = Inr SqlNull"
  "coerce_column c (SqlInt n) = Inr (SqlInt n)"
  by (simp_all add: coerce_column_def)

lemma coerce_column_kind:
  assumes "coerce_column c v = Inr v'"
  shows "(v' = SqlNull) = (v = SqlNull)" and "(\<exists>n. v' = SqlInt n) = (\<exists>n. v = SqlInt n)"
  using assms
  by (cases v; auto simp: coerce_column_def split: option.splits sum.splits if_splits)+

lemma coerce_column_fits:
  "\<not> has_nul s \<Longrightarrow> (case column_width c of None \<Rightarrow> True | Some n \<Rightarrow> length s \<le> n)
     \<Longrightarrow> coerce_column c (SqlText s) = Inr (SqlText s)"
  by (simp add: coerce_column_def varchar_def split: option.splits)

lemma coerce_assignments_names:
  "coerce_assignments xs = Inr vs \<Longrightarrow> map fst vs = map fst xs"
proof (induction xs arbitrary: vs)
  case Nil
  then show ?case by simp
next
  case (Cons a xs)
  obtain c v where a: "a = (c, v)" by (cases a)
  from Cons.prems a obtain v' ws where
    w: "coerce_column c v = Inr v'" "coerce_assignments xs = Inr ws" "vs = (c, v') # ws"
    by (auto split: sum.splits)
  from Cons.IH [OF w(2)] w(3) a show ?case by simp
qed

lemma coerce_assignments_member:
  "coerce_assignments xs = Inr vs \<Longrightarrow> (c, v) \<in> set xs
     \<Longrightarrow> \<exists>v'. (c, v') \<in> set vs \<and> coerce_column c v = Inr v'"
proof (induction xs arbitrary: vs)
  case Nil
  then show ?case by simp
next
  case (Cons a xs)
  obtain c0 v0 where a: "a = (c0, v0)" by (cases a)
  from Cons.prems(1) a obtain v1 ws where
    w: "coerce_column c0 v0 = Inr v1" "coerce_assignments xs = Inr ws" "vs = (c0, v1) # ws"
    by (auto split: sum.splits)
  show ?case
  proof (cases "(c, v) = (c0, v0)")
    case True
    with w show ?thesis by auto
  next
    case False
    with Cons.prems(2) a have "(c, v) \<in> set xs" by auto
    from Cons.IH [OF w(2) this] w(3) show ?thesis by auto
  qed
qed

lemma coerce_assignments_source:
  "coerce_assignments xs = Inr vs \<Longrightarrow> (c, v') \<in> set vs
     \<Longrightarrow> \<exists>v. (c, v) \<in> set xs \<and> coerce_column c v = Inr v'"
proof (induction xs arbitrary: vs)
  case Nil
  then show ?case by simp
next
  case (Cons a xs)
  obtain c0 v0 where a: "a = (c0, v0)" by (cases a)
  from Cons.prems(1) a obtain v1 ws where
    w: "coerce_column c0 v0 = Inr v1" "coerce_assignments xs = Inr ws" "vs = (c0, v1) # ws"
    by (auto split: sum.splits)
  show ?case
  proof (cases "(c, v') = (c0, v1)")
    case True
    with w a show ?thesis by auto
  next
    case False
    with Cons.prems(2) w(3) have "(c, v') \<in> set ws" by auto
    from Cons.IH [OF w(2) this] a show ?thesis by auto
  qed
qed

lemma coerce_assignments_accepted:
  "(\<And>c v. (c, v) \<in> set xs \<Longrightarrow> \<exists>v'. coerce_column c v = Inr v')
     \<Longrightarrow> \<exists>vs. coerce_assignments xs = Inr vs"
proof (induction xs)
  case Nil
  then show ?case by simp
next
  case (Cons a xs)
  obtain c v where a: "a = (c, v)" by (cases a)
  from Cons.prems [of c v] a obtain v' where v': "coerce_column c v = Inr v'" by auto
  have "\<exists>vs. coerce_assignments xs = Inr vs"
  proof (rule Cons.IH)
    fix c1 v1 assume "(c1, v1) \<in> set xs"
    then show "\<exists>v'. coerce_column c1 v1 = Inr v'" using Cons.prems [of c1 v1] by simp
  qed
  with a v' show ?case by auto
qed

lemma coerce_assignments_refused:
  "(c, v) \<in> set xs \<Longrightarrow> coerce_column c v = Inl err
     \<Longrightarrow> \<exists>err'. coerce_assignments xs = Inl err'"
proof (induction xs)
  case Nil
  then show ?case by simp
next
  case (Cons a xs)
  obtain c0 v0 where a: "a = (c0, v0)" by (cases a)
  show ?case
  proof (cases "coerce_column c0 v0")
    case (Inl e)
    with a show ?thesis by simp
  next
    case (Inr v1)
    with Cons.prems a have "(c, v) \<in> set xs" by auto
    from Cons.IH [OF this Cons.prems(2)] a Inr show ?thesis
      by (auto split: sum.splits)
  qed
qed

lemma update_task_statement:
  assumes "\<exists>f\<in>set patch_fields. present req_body f"
  shows "update_task None now d u id_param req_body =
     (case int4_in id_param of
        Inl err \<Rightarrow> (error_response 500 ''Update failed'', d)
      | Inr i \<Rightarrow>
          (case coerce_assignments
                  (sent req_body patch_fields @ [(''updated_at'', SqlInt now)]) of
             Inl err \<Rightarrow> (error_response 500 ''Update failed'', d)
           | Inr vs \<Rightarrow>
               (case update_rows (task_matches (SqlInt i) (pg_int u)) vs (tasks d) of
                  Inl err \<Rightarrow> (error_response 500 ''Update failed'', d)
                | Inr (ret, ts') \<Rightarrow>
                    if length ret = 0
                    then (error_response 404 ''Task not found'', d\<lparr>tasks := ts'\<rparr>)
                    else (json_response (RowsBody ret), d\<lparr>tasks := ts'\<rparr>))))"
proof -
  let ?b = "build_updates req_body"
  let ?ps = "params ?b @ [SqlText id_param] @ [pg_int u]"
  have ne: "updates ?b \<noteq> []" using assms by (simp add: updates_empty_iff)
  have a: "eval_assignments ?ps now (updates ?b @ [(''updated_at'', CurrentTimestamp)])
             = Inr (sent req_body patch_fields @ [(''updated_at'', SqlInt now)])"
    using build_updates_facts(2) [of req_body "[SqlText id_param] @ [pg_int u]" now]
    by (simp add: eval_assignments_append)
  have i: "eval_expr ?ps now (Placeholder (paramCount ?b)) = Inr (SqlText id_param)"
    by (simp add: build_updates_facts(1) nth_append)
  have u: "eval_expr ?ps now (Placeholder (paramCount ?b + 1)) = Inr (pg_int u)"
    by (simp add: build_updates_facts(1) nth_append)
  show ?thesis
    using ne a i u
    by (simp add: update_task_def Let_def pool_query_def update_tasks_def
        int4_value_text int4_value_pg_int
        split: sum.splits prod.splits)
qed

section \<open>What a successful update does\<close>

lemma sent_names: "map fst (sent req_body fs) = filter (present req_body) fs"
  by (simp add: sent_def comp_def)

lemma sent_member:
  "(c, v) \<in> set (sent req_body fs)
     \<longleftrightarrow> c \<in> set fs \<and> present req_body c \<and> v = pg_value (js_prop req_body c)"
  by (auto simp: sent_def)

lemma pg_value_not_int: "pg_value x \<noteq> SqlInt n"
  by (cases x) simp_all

lemma pg_value_null_iff: "pg_value x = SqlNull \<longleftrightarrow> x = JUndefined \<or> x = JNull"
  by (cases x) simp_all

lemma patched_row:
  assumes "coerce_assignments (sent req_body patch_fields @ [(''updated_at'', SqlInt now)])
             = Inr vs"
      and "set_columns vs t = Inr t'"
  shows "\<forall>f\<in>set patch_fields.
           if js_prop req_body f = JUndefined then column f t' = column f t
           else coerce_column f (pg_value (js_prop req_body f)) = Inr (column f t')"
    and "updated_at t' = now"
    and "same_fixed_columns t t'"
proof -
  let ?xs = "sent req_body patch_fields @ [(''updated_at'', SqlInt now)]"
  have names: "map fst vs = filter (present req_body) patch_fields @ [''updated_at'']"
    using coerce_assignments_names [OF assms(1)] by (simp add: sent_names)
  have d: "distinct (map fst vs)"
    unfolding names by (simp add: patch_fields_def)
  show "\<forall>f\<in>set patch_fields.
           if js_prop req_body f = JUndefined then column f t' = column f t
           else coerce_column f (pg_value (js_prop req_body f)) = Inr (column f t')"
  proof
    fix f assume f: "f \<in> set patch_fields"
    then have nu: "f \<noteq> ''updated_at''" by (auto simp: patch_fields_def)
    show "if js_prop req_body f = JUndefined then column f t' = column f t
          else coerce_column f (pg_value (js_prop req_body f)) = Inr (column f t')"
    proof (cases "present req_body f")
      case True
      with f have "(f, pg_value (js_prop req_body f)) \<in> set ?xs"
        by (simp add: sent_member)
      from coerce_assignments_member [OF assms(1) this] obtain v' where
        v': "(f, v') \<in> set vs" "coerce_column f (pg_value (js_prop req_body f)) = Inr v'"
        by blast
      from set_columns_value [OF assms(2) d v'(1)] v'(2) True show ?thesis
        by (simp add: present_def)
    next
      case False
      with nu have "f \<notin> set (map fst vs)" unfolding names by simp
      then have "f \<notin> fst ` set vs" by simp
      from set_columns_other [OF assms(2) this] False show ?thesis
        by (simp add: present_def)
    qed
  qed
  have "(''updated_at'', SqlInt now) \<in> set ?xs" by simp
  from coerce_assignments_member [OF assms(1) this]
  have "(''updated_at'', SqlInt now) \<in> set vs" by (simp add: coerce_column_simps)
  from set_columns_value [OF assms(2) d this] show "updated_at t' = now"
    by (simp add: column_def)
  show "same_fixed_columns t t'" using assms(2) by (rule set_columns_fixed)
qed

lemma matches_after_update:
  "set_columns vs t = Inr t' \<Longrightarrow> task_matches i u t' = task_matches i u t"
  using set_columns_fixed [of vs t t']
  by (simp add: task_matches_def same_fixed_columns_def)

lemma update_task_fault:
  "code (fst (update_task (Some err) now d u id_param req_body)) \<noteq> 200
   \<and> snd (update_task (Some err) now d u id_param req_body) = d"
  by (simp add: update_task_def Let_def pool_query_def error_response_def)

lemma update_task_success:
  assumes "update_task fault now d u id_param req_body = (r, d')" and "code r = 200"
  shows "fault = None \<and> (\<exists>f\<in>set patch_fields. present req_body f)
     \<and> (\<exists>i vs ts'.
            int4_in id_param = Inr i
          \<and> coerce_assignments (sent req_body patch_fields @ [(''updated_at'', SqlInt now)])
              = Inr vs
          \<and> update_rows (task_matches (SqlInt i) (pg_int u)) vs (tasks d)
              = Inr (filter (task_matches (SqlInt i) (pg_int u)) ts', ts')
          \<and> r = json_response (RowsBody (filter (task_matches (SqlInt i) (pg_int u)) ts'))
          \<and> d' = d\<lparr>tasks := ts'\<rparr>)"
proof -
  have f: "fault = None"
  proof (cases fault)
    case (Some err)
    with update_task_fault [of err now d u id_param req_body] assms show ?thesis by simp
  qed simp
  have p: "\<exists>f\<in>set patch_fields. present req_body f"
  proof (rule ccontr)
    assume "\<not> ?thesis"
    then have "updates (build_updates req_body) = []" by (simp add: updates_empty_iff)
    with assms show False by (auto simp: update_task_def Let_def error_response_def)
  qed
  note st = update_task_statement [OF p, of now d u id_param]
  from assms f have res: "update_task None now d u id_param req_body = (r, d')" by simp
  obtain i where i: "int4_in id_param = Inr i"
  proof (cases "int4_in id_param")
    case (Inl err)
    with st res assms(2) show ?thesis by (auto simp: error_response_def)
  qed blast
  obtain vs where
    c: "coerce_assignments (sent req_body patch_fields @ [(''updated_at'', SqlInt now)])
          = Inr vs"
  proof (cases "coerce_assignments
      (sent req_body patch_fields @ [(''updated_at'', SqlInt now)])")
    case (Inl err)
    with st i res assms(2) show ?thesis by (auto simp: error_response_def)
  qed blast
  obtain ret ts' where
    u: "update_rows (task_matches (SqlInt i) (pg_int u)) vs (tasks d) = Inr (ret, ts')"
  proof (cases "update_rows (task_matches (SqlInt i) (pg_int u)) vs (tasks d)")
    case (Inl err)
    with st i c res assms(2) show ?thesis by (auto simp: error_response_def)
  next
    case (Inr p)
    then show ?thesis using that by (cases p) auto
  qed
  have ne: "ret \<noteq> []"
  proof
    assume "ret = []"
    with st i c u res assms(2) show False by (auto simp: error_response_def)
  qed
  from st i c u ne res have r: "r = json_response (RowsBody ret)"
    and d': "d' = d\<lparr>tasks := ts'\<rparr>"
    by simp_all
  have "ret = filter (task_matches (SqlInt i) (pg_int u)) ts'"
    using u by (rule update_rows_returned) (rule matches_after_update)
  with i c u r d' f p show ?thesis by blast
qed

lemma successful_update_rows:
  assumes "update_task fault now d u id_param req_body = (r, d')" and "code r = 200"
  shows "\<exists>i. int4_in id_param = Inr i
     \<and> (\<exists>f\<in>set patch_fields. js_prop req_body f \<noteq> JUndefined)
     \<and> list_all2
         (\<lambda>t t'. if task_id t = i \<and> Some (user_id t) = u
                  then (\<forall>f\<in>set patch_fields.
                          if js_prop req_body f = JUndefined then column f t' = column f t
                          else coerce_column f (pg_value (js_prop req_body f))
                                 = Inr (column f t'))
                       \<and> updated_at t' = now \<and> same_fixed_columns t t'
                  else t' = t)
         (tasks d) (tasks d')
     \<and> users d' = users d
     \<and> r = json_response
             (RowsBody (filter (\<lambda>t. task_id t = i \<and> Some (user_id t) = u) (tasks d')))"
proof -
  from update_task_success [OF assms] obtain i vs ts' where
    p: "\<exists>f\<in>set patch_fields. present req_body f"
    and i: "int4_in id_param = Inr i"
    and c: "coerce_assignments (sent req_body patch_fields @ [(''updated_at'', SqlInt now)])
              = Inr vs"
    and u: "update_rows (task_matches (SqlInt i) (pg_int u)) vs (tasks d)
              = Inr (filter (task_matches (SqlInt i) (pg_int u)) ts', ts')"
    and r: "r = json_response (RowsBody (filter (task_matches (SqlInt i) (pg_int u)) ts'))"
    and d': "d' = d\<lparr>tasks := ts'\<rparr>"
    by blast
  let ?sel = "task_matches (SqlInt i) (pg_int u)"
  have "list_all2 (\<lambda>t t'. if ?sel t then set_columns vs t = Inr t' else t' = t) (tasks d) ts'"
    using u by (rule update_rows_result)
  then have "list_all2
         (\<lambda>t t'. if task_id t = i \<and> Some (user_id t) = u
                  then (\<forall>f\<in>set patch_fields.
                          if js_prop req_body f = JUndefined then column f t' = column f t
                          else coerce_column f (pg_value (js_prop req_body f))
                                 = Inr (column f t'))
                       \<and> updated_at t' = now \<and> same_fixed_columns t t'
                  else t' = t)
         (tasks d) ts'"
  proof (rule list_all2_mono)
    fix t t'
    assume h: "if ?sel t then set_columns vs t = Inr t' else t' = t"
    show "if task_id t = i \<and> Some (user_id t) = u
                  then (\<forall>f\<in>set patch_fields.
                          if js_prop req_body f = JUndefined then column f t' = column f t
                          else coerce_column f (pg_value (js_prop req_body f))
                                 = Inr (column f t'))
                       \<and> updated_at t' = now \<and> same_fixed_columns t t'
                  else t' = t"
    proof (cases "?sel t")
      case True
      with h have s: "set_columns vs t = Inr t'" by simp
      from True have m: "task_id t = i \<and> Some (user_id t) = u"
        by (simp add: task_matches_iff)
      from patched_row [OF c s] m show ?thesis by simp
    next
      case False
      with h have "t' = t" by simp
      moreover from False have "\<not> (task_id t = i \<and> Some (user_id t) = u)"
        by (simp add: task_matches_iff)
      ultimately show ?thesis by auto
    qed
  qed
  moreover have "filter ?sel ts' = filter (\<lambda>t. task_id t = i \<and> Some (user_id t) = u) ts'"
    by (rule filter_cong) (simp_all add: task_matches_iff)
  moreover from p have "\<exists>f\<in>set patch_fields. js_prop req_body f \<noteq> JUndefined"
    by (simp add: present_def)
  ultimately show ?thesis using i r d' by simp
qed

section \<open>When the store accepts an update\<close>

lemma set_columns_total:
  "(\<And>c v t. (c, v) \<in> set vs \<Longrightarrow> \<exists>t'. set_column c v t = Inr t')
     \<Longrightarrow> \<exists>t'. set_columns vs t = Inr t'"
proof (induction vs arbitrary: t)
  case Nil
  then show ?case by simp
next
  case (Cons a vs)
  obtain c v where a: "a = (c, v)" by (cases a)
  from Cons.prems [of c v t] a obtain t1 where t1: "set_column c v t = Inr t1" by auto
  have "\<exists>t'. set_columns vs t1 = Inr t'"
  proof (rule Cons.IH)
    fix c' v' t2 assume "(c', v') \<in> set vs"
    then show "\<exists>t'. set_column c' v' t2 = Inr t'" using Cons.prems [of c' v' t2] by simp
  qed
  with a t1 show ?case by simp
qed

lemma set_column_accepts:
  assumes "c \<in> set patch_fields" and "v = SqlNull \<or> (\<exists>s. v = SqlText s)"
      and "c = ''title'' \<longrightarrow> v \<noteq> SqlNull"
  shows "\<exists>t'. set_column c v t = Inr t'"
proof -
  from assms(1) have c: "c = ''title'' \<or> c = ''description'' \<or> c = ''category''
      \<or> c = ''priority'' \<or> c = ''status''"
    by (simp add: patch_fields_def)
  from assms(2) show ?thesis
  proof
    assume n: "v = SqlNull"
    with assms(3) have "c \<noteq> ''title''" by simp
    with c n show ?thesis
      by (elim disjE) (simp_all add: set_column_def)
  next
    assume "\<exists>s. v = SqlText s"
    then obtain s where "v = SqlText s" ..
    with c show ?thesis
      by (elim disjE) (simp_all add: set_column_def)
  qed
qed

lemma set_columns_accepted:
  assumes "js_prop req_body ''title'' \<noteq> JNull"
      and "coerce_assignments (sent req_body patch_fields @ [(''updated_at'', SqlInt now)])
             = Inr vs"
  shows "\<exists>t'. set_columns vs t = Inr t'"
proof (rule set_columns_total)
  fix c v' t
  assume "(c, v') \<in> set vs"
  from coerce_assignments_source [OF assms(2) this] obtain v where
    v: "(c, v) \<in> set (sent req_body patch_fields @ [(''updated_at'', SqlInt now)])"
    "coerce_column c v = Inr v'" by blast
  from v(1) consider "(c, v) \<in> set (sent req_body patch_fields)"
    | "c = ''updated_at''" "v = SqlInt now" by auto
  then show "\<exists>t'. set_column c v' t = Inr t'"
  proof cases
    case 1
    then have s: "c \<in> set patch_fields" "js_prop req_body c \<noteq> JUndefined"
      "v = pg_value (js_prop req_body c)"
      by (simp_all add: sent_member present_def)
    have "\<not> (\<exists>n. v' = SqlInt n)"
      using coerce_column_kind(2) [OF v(2)] s(3) pg_value_not_int by simp
    then have k: "v' = SqlNull \<or> (\<exists>s. v' = SqlText s)" by (cases v') simp_all
    have "c = ''title'' \<longrightarrow> v' \<noteq> SqlNull"
      using coerce_column_kind(1) [OF v(2)] s(2,3) assms(1)
      by (auto simp: pg_value_null_iff)
    with s(1) k show ?thesis by (rule set_column_accepts)
  next
    case 2
    with v(2) have "v' = SqlInt now" by (simp add: coerce_column_simps)
    with 2 show ?thesis by (simp add: set_column_def)
  qed
qed

lemma set_columns_null_title:
  "(''title'', SqlNull) \<in> set vs \<Longrightarrow> \<exists>err. set_columns vs t = Inl err"
proof (induction vs arbitrary: t)
  case Nil
  then show ?case by simp
next
  case (Cons a vs)
  obtain c v where a: "a = (c, v)" by (cases a)
  show ?case
  proof (cases "set_column c v t")
    case (Inl err)
    with a show ?thesis by simp
  next
    case (Inr t1)
    have "(c, v) \<noteq> (''title'', SqlNull)"
    proof
      assume "(c, v) = (''title'', SqlNull)"
      with Inr show False by (simp add: set_column_def)
    qed
    with Cons.prems a have "(''title'', SqlNull) \<in> set vs" by auto
    from Cons.IH [OF this, of t1] a Inr show ?thesis by simp
  qed
qed

lemma update_rows_selected:
  assumes "update_rows sel vs ts = Inr (ret, ts')" and "t \<in> set ts" and "sel t"
  shows "ret \<noteq> []"
  using assms
proof (induction ts arbitrary: ret ts')
  case Nil
  then show ?case by simp
next
  case (Cons a ts)
  then show ?case
    by (auto split: if_splits sum.splits prod.splits)
qed

lemma refused_value_iff:
  "refused_value req_body f \<longleftrightarrow>
     (\<exists>s. js_prop req_body f = JStr s
          \<and> (has_nul s
             \<or> (\<exists>n. column_width f = Some n \<and> n < length s
                    \<and> \<not> list_all (\<lambda>c. c = CHR '' '') (drop n s))))"
  by (cases "js_prop req_body f")
    (auto simp: refused_value_def coerce_column_def varchar_def split: option.splits)

lemma refuses_patch_refused:
  assumes "refuses_patch req_body"
  shows "\<exists>err. coerce_assignments
                 (sent req_body patch_fields @ [(''updated_at'', SqlInt now)]) = Inl err"
proof -
  from assms obtain f where f: "f \<in> set patch_fields" "refused_value req_body f"
    by (auto simp: refuses_patch_def list_ex_iff)
  from f(2) obtain err where
    e: "coerce_column f (pg_value (js_prop req_body f)) = Inl err"
    by (auto simp: refused_value_def split: sum.splits)
  have "js_prop req_body f \<noteq> JUndefined"
  proof
    assume "js_prop req_body f = JUndefined"
    with e show False by (simp add: coerce_column_simps)
  qed
  with f(1) have "(f, pg_value (js_prop req_body f))
      \<in> set (sent req_body patch_fields @ [(''updated_at'', SqlInt now)])"
    by (simp add: sent_member present_def)
  then show ?thesis using e by (rule coerce_assignments_refused)
qed

lemma not_refuses_patch_coerced:
  assumes "\<not> refuses_patch req_body"
  shows "\<exists>vs. coerce_assignments
                (sent req_body patch_fields @ [(''updated_at'', SqlInt now)]) = Inr vs"
proof (rule coerce_assignments_accepted)
  fix c v
  assume "(c, v) \<in> set (sent req_body patch_fields @ [(''updated_at'', SqlInt now)])"
  then consider "(c, v) \<in> set (sent req_body patch_fields)"
    | "c = ''updated_at''" "v = SqlInt now" by auto
  then show "\<exists>v'. coerce_column c v = Inr v'"
  proof cases
    case 1
    then have s: "c \<in> set patch_fields" "v = pg_value (js_prop req_body c)"
      by (simp_all add: sent_member)
    with assms have "\<not> refused_value req_body c"
      by (auto simp: refuses_patch_def list_ex_iff)
    with s(2) show ?thesis
      by (cases "coerce_column c v") (simp_all add: refused_value_def)
  next
    case 2
    then show ?thesis by (simp add: coerce_column_simps)
  qed
qed

lemma refuses_patch_update:
  assumes "\<exists>f\<in>set patch_fields. present req_body f" and "refuses_patch req_body"
  shows "update_task None now d u id_param req_body
           = (error_response 500 ''Update failed'', d)"
proof -
  from refuses_patch_refused [OF assms(2), of now] obtain err where
    "coerce_assignments (sent req_body patch_fields @ [(''updated_at'', SqlInt now)])
       = Inl err" by blast
  then show ?thesis
    by (simp add: update_task_statement [OF assms(1)] split: sum.splits)
qed

lemma malformed_id_update:
  assumes "\<exists>f\<in>set patch_fields. present req_body f" and "int4_in id_param = Inl err"
  shows "update_task None now d u id_param req_body
           = (error_response 500 ''Update failed'', d)"
  using assms(2) by (simp add: update_task_statement [OF assms(1)])

lemma null_title_refused:
  assumes "js_prop req_body ''title'' = JNull" and "int4_in id_param = Inr i"
      and "t0 \<in> set (tasks d)" and "task_id t0 = i" and "Some (user_id t0) = u"
  shows "update_task None now d u id_param req_body
           = (error_response 500 ''Update failed'', d)"
proof -
  let ?sel = "task_matches (SqlInt i) (pg_int u)"
  let ?xs = "sent req_body patch_fields @ [(''updated_at'', SqlInt now)]"
  have t: "''title'' \<in> set patch_fields" by (simp add: patch_fields_def)
  have p: "\<exists>f\<in>set patch_fields. present req_body f"
  proof (rule bexI)
    show "present req_body ''title''" using assms(1) by (simp add: present_def)
  qed (rule t)
  show ?thesis
  proof (cases "coerce_assignments ?xs")
    case (Inl err)
    with assms(2) show ?thesis by (simp add: update_task_statement [OF p])
  next
    case (Inr vs)
    from t assms(1) have "(''title'', SqlNull) \<in> set ?xs"
      by (simp add: sent_member present_def)
    from coerce_assignments_member [OF Inr this] have "(''title'', SqlNull) \<in> set vs"
      by (simp add: coerce_column_simps)
    then have r: "\<exists>err. set_columns vs t = Inl err" for t
      by (rule set_columns_null_title)
    from assms(3-5) have "\<exists>t\<in>set (tasks d). ?sel t"
      by (auto simp: task_matches_iff)
    from update_rows_refused [of vs "tasks d" ?sel, OF r this]
    obtain err where "update_rows ?sel vs (tasks d) = Inl err" by blast
    with Inr assms(2) show ?thesis by (simp add: update_task_statement [OF p])
  qed
qed

lemma update_accepted:
  assumes "\<exists>f\<in>set patch_fields. present req_body f"
      and "js_prop req_body ''title'' \<noteq> JNull" and "\<not> refuses_patch req_body"
      and "int4_in id_param = Inr i"
      and "t0 \<in> set (tasks d)" and "task_id t0 = i" and "Some (user_id t0) = u"
  shows "\<exists>rows d'. update_task None now d u id_param req_body
           = (json_response (RowsBody rows), d')"
proof -
  let ?sel = "task_matches (SqlInt i) (pg_int u)"
  from not_refuses_patch_coerced [OF assms(3), of now] obtain vs where
    c: "coerce_assignments (sent req_body patch_fields @ [(''updated_at'', SqlInt now)])
          = Inr vs" by blast
  have "\<exists>t'. set_columns vs t = Inr t'" for t
    using assms(2) c by (rule set_columns_accepted)
  from update_rows_accepted [of vs ?sel "tasks d", OF this]
  obtain ret ts' where u: "update_rows ?sel vs (tasks d) = Inr (ret, ts')" by blast
  from assms(5-7) have "?sel t0" by (simp add: task_matches_iff)
  with u assms(5) have "ret \<noteq> []" by (rule update_rows_selected)
  with u c assms(4) show ?thesis by (auto simp: update_task_statement [OF assms(1)])
qed

text \<open>The outcome of an update on a row that exists, for a patch that is not empty.\<close>

lemma update_matching_row:
  assumes "\<exists>f\<in>set patch_fields. present req_body f" and "int4_in id_param = Inr i"
      and "t0 \<in> set (tasks d)" and "task_id t0 = i" and "Some (user_id t0) = u"
  shows "if fault \<noteq> None \<or> js_prop req_body ''title'' = JNull \<or> refuses_patch req_body
         then update_task fault now d u id_param req_body
                = (error_response 500 ''Update failed'', d)
         else (\<exists>rows d'. update_task fault now d u id_param req_body
                = (json_response (RowsBody rows), d'))"
proof (cases fault)
  case (Some err)
  from assms(1) have "updates (build_updates req_body) \<noteq> []"
    by (simp add: updates_empty_iff)
  with Some show ?thesis by (simp add: update_task_def Let_def pool_query_def)
next
  case None
  show ?thesis
  proof (cases "refuses_patch req_body")
    case True
    with None refuses_patch_update [OF assms(1) True] show ?thesis by simp
  next
    case False
    show ?thesis
    proof (cases "js_prop req_body ''title'' = JNull")
      case True
      with None null_title_refused [OF True assms(2-5)] show ?thesis by simp
    next
      case nt: False
      with None False update_accepted [OF assms(1) nt False assms(2-5)]
      show ?thesis by simp
    qed
  qed
qed

section \<open>Requests on a task of another owner\<close>


lemma delete_task_statement:
  "delete_task None d u id_param =
     (case int4_in id_param of
        Inl err \<Rightarrow> (error_response 500 ''Delete failed'', d)
      | Inr i \<Rightarrow>
          (json_response (SuccessBody True),
           d\<lparr>tasks := filter (\<lambda>t. \<not> task_matches (SqlInt i) (pg_int u) t) (tasks d)\<rparr>))"
  by (simp add: delete_task_def pool_query_def delete_task_row_def int4_value_text
      int4_value_pg_int split: sum.splits)




lemma delete_task_fault:
  "delete_task (Some err) d u id_param = (error_response 500 ''Delete failed'', d)"
  by (simp add: delete_task_def pool_query_def)

lemma update_task_faulty_store:
  "snd (update_task (Some err) now d u id_param req_body) = d"
  by (simp add: update_task_def Let_def pool_query_def)

text \<open>Task ids stay unique: no handler changes the id of a row.\<close>

lemma update_rows_ids:
  "update_rows sel vs ts = Inr (ret, ts') \<Longrightarrow> map task_id ts' = map task_id ts"
proof (induction ts arbitrary: ret ts')
  case Nil
  then show ?case by simp
next
  case (Cons t ts)
  show ?case
  proof (cases "sel t")
    case True
    with Cons.prems obtain t1 r1 ts1 where
      s: "set_columns vs t = Inr t1" "update_rows sel vs ts = Inr (r1, ts1)" "ts' = t1 # ts1"
      by (auto split: sum.splits prod.splits)
    from set_columns_fixed [OF s(1)] have "task_id t1 = task_id t"
      by (simp add: same_fixed_columns_def)
    with Cons.IH [OF s(2)] s(3) show ?thesis by simp
  next
    case False
    with Cons.prems obtain r1 ts1 where
      s: "update_rows sel vs ts = Inr (r1, ts1)" "ts' = t # ts1"
      by (auto split: sum.splits prod.splits)
    from Cons.IH [OF s(1)] s(2) show ?thesis by simp
  qed
qed

lemma update_task_keeps_ids:
  "map task_id (tasks (snd (update_task fault now d u id_param req_body)))
     = map task_id (tasks d)"
proof (cases fault)
  case (Some err)
  then show ?thesis by (simp add: update_task_faulty_store)
next
  case None
  show ?thesis
  proof (cases "\<exists>f\<in>set patch_fields. present req_body f")
    case False
    then have "updates (build_updates req_body) = []" by (simp add: updates_empty_iff)
    then show ?thesis by (simp add: update_task_def Let_def)
  next
    case True
    note st = update_task_statement [OF True, of now d u id_param]
    show ?thesis
    proof (cases "int4_in id_param")
      case (Inl err)
      with None st show ?thesis by simp
    next
      case i: (Inr i)
      show ?thesis
      proof (cases "coerce_assignments
          (sent req_body patch_fields @ [(''updated_at'', SqlInt now)])")
        case (Inl err)
        with None st i show ?thesis by simp
      next
        case c: (Inr vs)
        show ?thesis
        proof (cases "update_rows (task_matches (SqlInt i) (pg_int u)) vs (tasks d)")
          case (Inl err)
          with None st i c show ?thesis by simp
        next
          case (Inr p)
          obtain ret ts' where p: "p = (ret, ts')" by (cases p)
          from Inr p have "map task_id ts' = map task_id (tasks d)"
            using update_rows_ids by blast
          with None st i c Inr p show ?thesis by simp
        qed
      qed
    qed
  qed
qed

lemma handlers_keep_ids_distinct:
  assumes "distinct (map task_id (tasks d))"
  shows "distinct (map task_id (tasks (snd (update_task fault now d u id_param req_body))))"
    and "distinct (map task_id (tasks (snd (delete_task fault d u id_param))))"
proof -
  show "distinct (map task_id (tasks (snd (update_task fault now d u id_param req_body))))"
    using assms by (simp only: update_task_keeps_ids)
  show "distinct (map task_id (tasks (snd (delete_task fault d u id_param))))"
  proof (cases fault)
    case (Some err)
    with assms show ?thesis by (simp add: delete_task_fault)
  next
    case None
    with assms show ?thesis
      by (cases "int4_in id_param")
        (simp_all add: delete_task_statement distinct_map_filter)
  qed
qed

section \<open>Failed inserts and ordered rows\<close>

lemma register_insert_failure:
  assumes "e \<noteq> []" and "p \<noteq> []"
      and "fst (pool_query fault
                  (insert_user (SqlText e) (SqlText (hash_password L p)) now) d) = Inl err"
  shows "fst (register L now fault d (JStr e) (JStr p)) = register_catch err"
  using assms
  by (cases "pool_query fault
               (insert_user (SqlText e) (SqlText (hash_password L p)) now) d")
    (simp add: register_def bcrypt_hashSync_def)



text \<open>The definitions that running a handler on the example states unfolds.\<close>

lemmas int4_in_eval =
  int4_in_def Let_def is_space_def is_digit_def decimal_def digit_value_def

lemmas update_task_eval =
  update_task_def build_updates_def patch_fields_def push_update_def js_prop_def
  pool_query_def update_tasks_def int4_value_def coerce_column_def column_width_def
  varchar_def has_nul_def set_column_def task_matches_def sql_eq_def

lemmas sample_db_eval = sample_db_def alice_task_def bob_task_def alice_done_task_def

section \<open>Claims on the access guard\<close>

text \<open>
  Claim C2: the guard accepts exactly the headers \<^verbatim>\<open>Bearer <token>\<close> whose token has a
  valid signature and has not expired, and returns the subject of its claims; every
  other input is answered \<^verbatim>\<open>Unauthenticated\<close>.

  The code answers 401 to every request. Without the header the answer is
  \<^verbatim>\<open>No token\<close>. With a header, whatever it holds and whatever the token service thinks
  of the token, \<^verbatim>\<open>jwt.verify\<close> receives the array that \<^verbatim>\<open>split\<close> returned, throws, and
  the answer is \<^verbatim>\<open>Invalid token\<close>: \<^verbatim>\<open>next()\<close> is never called and no subject is ever
  returned.
\<close>

theorem verifyToken_rejects_every_header:
  "verifyToken L now None = Inl (error_response 401 ''No token'')
   \<and> verifyToken L now (Some (''Bearer '' @ tok)) = Inl (error_response 401 ''Invalid token'')
   \<and> verifyToken L now (Some h) = Inl (error_response 401 ''Invalid token'')"
  by (simp add: verifyToken_def jwt_verify_def)

theorem verifyToken_rejects_every_header_witness:
  "check_token test_libs 0 ''token-with-sub'' = Some \<lparr>sub = Some 1, iat = 0, exp = 86400\<rparr>
   \<and> verifyToken test_libs 0 (Some ''Bearer token-with-sub'')
       = Inl (error_response 401 ''Invalid token'')"
  using verifyToken_rejects_every_header [of test_libs 0 "''token-with-sub''"]
  by (simp add: test_libs_def)

section \<open>Claims on registration and login\<close>

text \<open>
  Claim C3: a successful registration answers with a token whose subject is the id of the
  new user and with a summary holding exactly that user's id and email, never the
  password hash.

  On the empty store, registering \<^verbatim>\<open>a@x.com\<close> creates the user with id 1, but the
  token is signed over claims without a subject and both members of the summary are
  \<^verbatim>\<open>undefined\<close>: the handler reads \<^verbatim>\<open>id\<close> and \<^verbatim>\<open>email\<close> from the array of rows.
\<close>

theorem register_summary_and_subject_undefined:
  "register L now None empty_db (JStr ''a@x.com'') (JStr ''pw1'') =
     (json_response
        (AuthBody (sign_claims L \<lparr>sub = None, iat = now, exp = now + 86400\<rparr>) ''bearer''
           \<lparr>summary_id = None, summary_email = None\<rparr>),
      \<lparr>users = [\<lparr>uid = 1, email = ''a@x.com'', password_hash = hash_password L ''pw1'',
                  user_created_at = now\<rparr>],
       tasks = [], users_seq = 1, tasks_seq = 0\<rparr>)"
  by (simp add: register_def bcrypt_hashSync_def pool_query_def insert_user_def varchar_def has_nul_def
      Let_def empty_db_def rows_prop_def jwt_sign_def)

theorem register_summary_and_subject_undefined_witness:
  "register test_libs 0 None empty_db (JStr ''a@x.com'') (JStr ''pw1'') =
     (json_response
        (AuthBody ''token-without-sub'' ''bearer'' \<lparr>summary_id = None, summary_email = None\<rparr>),
      \<lparr>users = [\<lparr>uid = 1, email = ''a@x.com'', password_hash = ''hash-of-pw1'',
                  user_created_at = 0\<rparr>],
       tasks = [], users_seq = 1, tasks_seq = 0\<rparr>)"
  using register_summary_and_subject_undefined [of test_libs 0]
  by (simp add: test_libs_def)

text \<open>
  Claim C4, amended: when the insert of a registration fails, the handler answers
  \<^verbatim>\<open>EmailConflict\<close> (400, \<^verbatim>\<open>Email already exists\<close>) exactly when the message of the
  error contains \<^verbatim>\<open>duplicate\<close>, and \<^verbatim>\<open>InternalError\<close> (500, \<^verbatim>\<open>Registration failed\<close>)
  otherwise; the store's violation of the uniqueness of \<^verbatim>\<open>email\<close> has such a message.

  As stated, with the classification resting on the uniqueness violation itself and not
  on a piece of the message, the claim fails: in a store where the email is free but the
  next id is taken, the insert fails on the primary key, the message contains
  \<^verbatim>\<open>duplicate\<close>, and the answer is \<^verbatim>\<open>Email already exists\<close>.
\<close>

theorem register_failure_classified_by_message:
  assumes "e \<noteq> []" and "p \<noteq> []"
      and "fst (pool_query fault
                  (insert_user (SqlText e) (SqlText (hash_password L p)) now) d) = Inl err"
  shows "fst (register L now fault d (JStr e) (JStr p)) =
           (if str_includes (message err) ''duplicate''
            then error_response 400 ''Email already exists''
            else error_response 500 ''Registration failed'')
     \<and> register_catch (unique_violation ''users_email_key'')
           = error_response 400 ''Email already exists''"
proof -
  have "register_catch (unique_violation ''users_email_key'')
           = error_response 400 ''Email already exists''"
    by (simp add: register_catch_def unique_violation_def pg_error_def)
  with register_insert_failure [OF assms] show ?thesis
    by (simp add: register_catch_def)
qed

theorem register_conflict_counterexample:
  "''a@x.com'' \<notin> set (map email (users lagging_db))
   \<and> fst (pool_query None
            (insert_user (SqlText ''a@x.com'') (SqlText (hash_password test_libs ''pw1'')) 0)
            lagging_db) = Inl (unique_violation ''users_pkey'')
   \<and> \<not> email_uniqueness_violation (unique_violation ''users_pkey'')
   \<and> fst (register test_libs 0 None lagging_db (JStr ''a@x.com'') (JStr ''pw1''))
       = error_response 400 ''Email already exists''"
  by (simp add: register_def bcrypt_hashSync_def pool_query_def insert_user_def varchar_def has_nul_def
      Let_def lagging_db_def bob_def test_libs_def register_catch_def unique_violation_def
      pg_error_def email_uniqueness_violation_def)

theorem register_failure_classified_by_message_witness:
  "fst (register test_libs 0 None sample_db (JStr ''b@x.com'') (JStr ''pw9''))
     = error_response 400 ''Email already exists''
   \<and> fst (register test_libs 0 (Some (plain_error ''Connection terminated unexpectedly''))
            sample_db (JStr ''c@x.com'') (JStr ''pw9''))
     = error_response 500 ''Registration failed''"
proof -
  have 1: "''b@x.com'' \<noteq> []" and 2: "''pw9'' \<noteq> []" and 3: "''c@x.com'' \<noteq> []" by simp_all
  have 4: "fst (pool_query None
              (insert_user (SqlText ''b@x.com'') (SqlText (hash_password test_libs ''pw9'')) 0)
              sample_db) = Inl (unique_violation ''users_email_key'')"
    by (simp add: pool_query_def insert_user_def varchar_def has_nul_def Let_def sample_db_def
        alice_def bob_def)
  have 5: "fst (pool_query (Some (plain_error ''Connection terminated unexpectedly''))
              (insert_user (SqlText ''c@x.com'') (SqlText (hash_password test_libs ''pw9'')) 0)
              sample_db) = Inl (plain_error ''Connection terminated unexpectedly'')"
    by (simp add: pool_query_def)
  from register_failure_classified_by_message [OF 1 2 4]
    register_failure_classified_by_message [OF 3 2 5]
  show ?thesis
    by (simp add: unique_violation_def pg_error_def plain_error_def)
qed

text \<open>
  Claim C5: a login for an unknown email and a login with a wrong password for a known
  email get the same \<^verbatim>\<open>InvalidCredentials\<close> response.

  For the known email \<^verbatim>\<open>a@x.com\<close> the handler passes \<^verbatim>\<open>user.password_hash\<close>, read from
  the array of rows and so \<^verbatim>\<open>undefined\<close>, to \<^verbatim>\<open>bcrypt.compareSync\<close>, which throws: the
  answer is 500 \<^verbatim>\<open>Login failed\<close>. For an unknown email it is 401
  \<^verbatim>\<open>Invalid credentials\<close>. The two responses differ.
\<close>

theorem login_failures_differ:
  "login L now None sample_db (JStr ''a@x.com'') (JStr ''wrong'')
     = error_response 500 ''Login failed''
   \<and> login L now None sample_db (JStr ''nobody@x.com'') (JStr ''wrong'')
     = error_response 401 ''Invalid credentials''
   \<and> error_response 500 ''Login failed'' \<noteq> error_response 401 ''Invalid credentials''"
  by (simp add: login_def pool_query_def select_user_by_email_def sql_eq_def
      sample_db_def alice_def bob_def rows_prop_def bcrypt_compareSync_def
      error_response_def)

theorem login_failures_differ_witness:
  "login test_libs 0 None sample_db (JStr ''a@x.com'') (JStr ''wrong'')
     = \<lparr>code = 500, body = ErrorBody ''Login failed''\<rparr>
   \<and> login test_libs 0 None sample_db (JStr ''nobody@x.com'') (JStr ''wrong'')
     = \<lparr>code = 401, body = ErrorBody ''Invalid credentials''\<rparr>"
  using login_failures_differ [of test_libs 0]
  by (simp add: error_response_def)

section \<open>Claims on updating and deleting a task\<close>

text \<open>
  Claim C6, amended. When an update succeeds (the answer is 200), the id is the text of
  an integer and the patch names at least one of the five fields; on every row with that
  id and owner each field present in the patch has the value the store made of the sent
  one, each field absent from the patch has the value it had, \<^verbatim>\<open>updated_at\<close> is the
  time of the statement, and no other column changes; every other row is untouched; the
  response carries the rows after the update. An update does succeed when the store runs
  the statement, the id is the text of an integer, a row has that id and owner, the
  patch names a field, its title is not \<^verbatim>\<open>null\<close> and the store refuses none of its
  values. The value the store makes of a sent text is that text when it fits the column,
  and the text cut to the column's width when it is longer by spaces only.

  As stated, with every present field taking its new value, the claim fails: a status
  of \<^verbatim>\<open>DONE\<close> followed by fifty spaces is accepted, and what the row holds afterwards is
  \<^verbatim>\<open>DONE\<close> followed by forty-six spaces.
\<close>

theorem update_task_applies_patch:
  "(update_task fault now d u id_param req_body = (r, d') \<and> code r = 200 \<longrightarrow>
      (\<exists>i. int4_in id_param = Inr i
         \<and> (\<exists>f\<in>set patch_fields. js_prop req_body f \<noteq> JUndefined)
         \<and> list_all2
             (\<lambda>t t'. if task_id t = i \<and> Some (user_id t) = u
                      then (\<forall>f\<in>set patch_fields.
                              if js_prop req_body f = JUndefined
                              then column f t' = column f t
                              else coerce_column f (pg_value (js_prop req_body f))
                                     = Inr (column f t'))
                           \<and> updated_at t' = now \<and> same_fixed_columns t t'
                      else t' = t)
             (tasks d) (tasks d')
         \<and> users d' = users d
         \<and> r = json_response
                 (RowsBody (filter (\<lambda>t. task_id t = i \<and> Some (user_id t) = u)
                              (tasks d')))))
   \<and> (int4_in id_param = Inr j \<and> t0 \<in> set (tasks d) \<and> task_id t0 = j
        \<and> Some (user_id t0) = u
        \<and> (\<exists>f\<in>set patch_fields. js_prop req_body f \<noteq> JUndefined)
        \<and> js_prop req_body ''title'' \<noteq> JNull \<and> \<not> refuses_patch req_body
      \<longrightarrow> code (fst (update_task None now d u id_param req_body)) = 200)
   \<and> (\<not> has_nul s \<and> (case column_width g of None \<Rightarrow> True | Some n \<Rightarrow> length s \<le> n)
      \<longrightarrow> coerce_column g (SqlText s) = Inr (SqlText s))
   \<and> (\<not> has_nul s \<and> column_width g = Some n \<and> n < length s
        \<and> list_all (\<lambda>c. c = CHR '' '') (drop n s)
      \<longrightarrow> coerce_column g (SqlText s) = Inr (SqlText (take n s)))"
proof (intro conjI impI)
  assume "update_task fault now d u id_param req_body = (r, d') \<and> code r = 200"
  then have a: "update_task fault now d u id_param req_body = (r, d')" and b: "code r = 200"
    by simp_all
  from a b show "\<exists>i. int4_in id_param = Inr i
         \<and> (\<exists>f\<in>set patch_fields. js_prop req_body f \<noteq> JUndefined)
         \<and> list_all2
             (\<lambda>t t'. if task_id t = i \<and> Some (user_id t) = u
                      then (\<forall>f\<in>set patch_fields.
                              if js_prop req_body f = JUndefined
                              then column f t' = column f t
                              else coerce_column f (pg_value (js_prop req_body f))
                                     = Inr (column f t'))
                           \<and> updated_at t' = now \<and> same_fixed_columns t t'
                      else t' = t)
             (tasks d) (tasks d')
         \<and> users d' = users d
         \<and> r = json_response
                 (RowsBody (filter (\<lambda>t. task_id t = i \<and> Some (user_id t) = u)
                              (tasks d')))"
    by (rule successful_update_rows)
next
  assume h: "int4_in id_param = Inr j \<and> t0 \<in> set (tasks d) \<and> task_id t0 = j
        \<and> Some (user_id t0) = u
        \<and> (\<exists>f\<in>set patch_fields. js_prop req_body f \<noteq> JUndefined)
        \<and> js_prop req_body ''title'' \<noteq> JNull \<and> \<not> refuses_patch req_body"
  then have p: "\<exists>f\<in>set patch_fields. present req_body f" by (simp add: present_def)
  from h have "\<exists>rows d'. update_task None now d u id_param req_body
           = (json_response (RowsBody rows), d')"
    using update_accepted [OF p, of id_param j t0 d u now] by simp
  then show "code (fst (update_task None now d u id_param req_body)) = 200"
    by (auto simp: json_response_def)
next
  assume "\<not> has_nul s
      \<and> (case column_width g of None \<Rightarrow> True | Some n \<Rightarrow> length s \<le> n)"
  then show "coerce_column g (SqlText s) = Inr (SqlText s)"
    by (simp add: coerce_column_fits)
next
  assume "\<not> has_nul s \<and> column_width g = Some n \<and> n < length s
      \<and> list_all (\<lambda>c. c = CHR '' '') (drop n s)"
  then show "coerce_column g (SqlText s) = Inr (SqlText (take n s))"
    by (simp add: coerce_column_def varchar_def)
qed

theorem update_task_cut_value_counterexample:
  "update_task None 500 sample_db (Some 1) ''1''
     [''status'' \<mapsto> JStr ''DONE                                                  '']
     = (json_response
          (RowsBody [alice_task\<lparr>status := Some ''DONE                                              '',
                       updated_at := 500\<rparr>]),
        sample_db\<lparr>tasks := [alice_task\<lparr>status := Some ''DONE                                              '',
                                       updated_at := 500\<rparr>,
                             bob_task, alice_done_task]\<rparr>)
   \<and> ''DONE                                              ''
       \<noteq> ''DONE                                                  ''"
  by (simp add: update_task_eval int4_in_eval sample_db_eval)

lemma update_status_example:
  "update_task None 500 sample_db (Some 1) ''1'' [''status'' \<mapsto> JStr ''DONE''] =
     (json_response (RowsBody [alice_task\<lparr>status := Some ''DONE'', updated_at := 500\<rparr>]),
      sample_db\<lparr>tasks := [alice_task\<lparr>status := Some ''DONE'', updated_at := 500\<rparr>,
                           bob_task, alice_done_task]\<rparr>)"
  by (simp add: update_task_eval int4_in_eval sample_db_eval)

theorem update_task_applies_patch_witness:
  "update_task None 500 sample_db (Some 1) ''1'' [''status'' \<mapsto> JStr ''DONE''] =
     (json_response (RowsBody [alice_task\<lparr>status := Some ''DONE'', updated_at := 500\<rparr>]),
      sample_db\<lparr>tasks := [alice_task\<lparr>status := Some ''DONE'', updated_at := 500\<rparr>,
                           bob_task, alice_done_task]\<rparr>)
   \<and> int4_in ''1'' = Inr 1 \<and> alice_task \<in> set (tasks sample_db)
   \<and> \<not> refuses_patch [''status'' \<mapsto> JStr ''DONE'']
   \<and> code (fst (update_task None 500 sample_db (Some 1) ''1''
                  [''status'' \<mapsto> JStr ''DONE''])) = 200
   \<and> coerce_column ''status'' (SqlText ''DONE'') = Inr (SqlText ''DONE'')"
proof -
  have c: "code (json_response
      (RowsBody [alice_task\<lparr>status := Some ''DONE'', updated_at := 500\<rparr>])) = 200"
    by (simp add: json_response_def)
  have i: "int4_in ''1'' = Inr 1" by (simp add: int4_in_eval)
  have m: "alice_task \<in> set (tasks sample_db)" "task_id alice_task = 1"
    "Some (user_id alice_task) = Some 1"
    by (simp_all add: sample_db_def alice_task_def)
  have p: "\<exists>f\<in>set patch_fields. js_prop [''status'' \<mapsto> JStr ''DONE''] f \<noteq> JUndefined"
    by (simp add: patch_fields_def js_prop_def)
  have t: "js_prop [''status'' \<mapsto> JStr ''DONE''] ''title'' \<noteq> JNull"
    by (simp add: js_prop_def)
  have l: "\<not> refuses_patch [''status'' \<mapsto> JStr ''DONE'']"
    by (simp add: refuses_patch_def refused_value_def patch_fields_def js_prop_def
        coerce_column_def column_width_def varchar_def has_nul_def)
  have w: "\<not> has_nul ''DONE''"
    "case column_width ''status'' of None \<Rightarrow> True | Some n \<Rightarrow> length ''DONE'' \<le> n"
    by (simp_all add: column_width_def has_nul_def)
  from update_task_applies_patch
    [where fault = None and now = 500 and d = sample_db and u = "Some 1"
       and id_param = "''1''" and req_body = "[''status'' \<mapsto> JStr ''DONE'']"
       and j = 1 and ?t0.0 = alice_task and g = "''status''" and s = "''DONE''"]
    update_status_example c i m p t l w
  show ?thesis by simp
qed

text \<open>
  Claim C7: an update whose patch has none of the fields title, description, category,
  priority and status is answered \<^verbatim>\<open>ValidationError\<close> (400,
  \<^verbatim>\<open>No updates provided\<close>), and the store is left as it was. This holds whether or not
  the store is reachable, for the statement is never sent.
\<close>

theorem update_task_empty_patch:
  assumes "\<forall>f\<in>set patch_fields. js_prop req_body f = JUndefined"
  shows "update_task fault now d u i req_body
           = (error_response 400 ''No updates provided'', d)"
proof -
  from assms have "\<not> (\<exists>f\<in>set patch_fields. present req_body f)"
    by (simp add: present_def)
  then have "updates (build_updates req_body) = []"
    by (simp add: updates_empty_iff)
  then show ?thesis by (simp add: update_task_def Let_def)
qed

theorem update_task_empty_patch_witness:
  "update_task None 500 sample_db (Some 1) ''1'' [''colour'' \<mapsto> JStr ''red'']
     = (error_response 400 ''No updates provided'', sample_db)"
proof -
  have h: "\<forall>f\<in>set patch_fields. js_prop [''colour'' \<mapsto> JStr ''red''] f = JUndefined"
    by (simp add: patch_fields_def js_prop_def)
  show ?thesis using update_task_empty_patch [OF h] by simp
qed





text \<open>
  Claim C10, amended: a field of the patch that is \<^verbatim>\<open>null\<close> counts as present. When the
  id is the text of an integer and a row has that id and owner: if the call to the store
  fails, or the title is \<^verbatim>\<open>null\<close> in the patch (the \<^verbatim>\<open>NOT NULL\<close> constraint on \<^verbatim>\<open>title\<close>
  refuses the statement), or the store refuses a value of the patch, the answer
  is 500 \<^verbatim>\<open>Update failed\<close> and no row changes; otherwise the update succeeds, a field
  that is \<^verbatim>\<open>null\<close> in the patch is \<^verbatim>\<open>NULL\<close> on that row afterwards and a field that is
  \<^verbatim>\<open>undefined\<close> keeps its value.

  As stated for every one of the five fields the claim fails: a patch whose title is
  \<^verbatim>\<open>null\<close> does not set the column to \<^verbatim>\<open>NULL\<close>.
\<close>

theorem update_task_null_field:
  assumes "f \<in> set patch_fields" and "js_prop req_body f = JNull"
      and "int4_in id_param = Inr i"
      and "t0 \<in> set (tasks d)" and "task_id t0 = i" and "Some (user_id t0) = u"
  shows "if fault \<noteq> None \<or> js_prop req_body ''title'' = JNull \<or> refuses_patch req_body
         then update_task fault now d u id_param req_body
                = (error_response 500 ''Update failed'', d)
         else (\<exists>rows d'.
                 update_task fault now d u id_param req_body
                   = (json_response (RowsBody rows), d')
                 \<and> list_all2
                     (\<lambda>t t'. if task_id t = i \<and> Some (user_id t) = u
                              then column f t' = SqlNull
                                   \<and> (\<forall>g\<in>set patch_fields.
                                         js_prop req_body g = JUndefined
                                           \<longrightarrow> column g t' = column g t)
                              else t' = t)
                     (tasks d) (tasks d'))"
proof -
  have p: "\<exists>f\<in>set patch_fields. present req_body f"
  proof (rule bexI)
    show "present req_body f" using assms(2) by (simp add: present_def)
  qed (rule assms(1))
  note m = update_matching_row [OF p assms(3-6), of fault now]
  show ?thesis
  proof (cases "fault \<noteq> None \<or> js_prop req_body ''title'' = JNull \<or> refuses_patch req_body")
    case True
    with m show ?thesis by simp
  next
    case False
    with m obtain rows d' where
      r: "update_task fault now d u id_param req_body = (json_response (RowsBody rows), d')"
      by auto
    have c: "code (json_response (RowsBody rows)) = 200" by (simp add: json_response_def)
    from successful_update_rows [OF r c] assms(3)
    have "list_all2
         (\<lambda>t t'. if task_id t = i \<and> Some (user_id t) = u
                  then (\<forall>f\<in>set patch_fields.
                          if js_prop req_body f = JUndefined then column f t' = column f t
                          else coerce_column f (pg_value (js_prop req_body f))
                                 = Inr (column f t'))
                       \<and> updated_at t' = now \<and> same_fixed_columns t t'
                  else t' = t)
         (tasks d) (tasks d')" by auto
    then have "list_all2
                     (\<lambda>t t'. if task_id t = i \<and> Some (user_id t) = u
                              then column f t' = SqlNull
                                   \<and> (\<forall>g\<in>set patch_fields.
                                         js_prop req_body g = JUndefined
                                           \<longrightarrow> column g t' = column g t)
                              else t' = t)
                     (tasks d) (tasks d')"
    proof (rule list_all2_mono)
      fix t t'
      assume h: "if task_id t = i \<and> Some (user_id t) = u
                  then (\<forall>f\<in>set patch_fields.
                          if js_prop req_body f = JUndefined then column f t' = column f t
                          else coerce_column f (pg_value (js_prop req_body f))
                                 = Inr (column f t'))
                       \<and> updated_at t' = now \<and> same_fixed_columns t t'
                  else t' = t"
      show "if task_id t = i \<and> Some (user_id t) = u
                              then column f t' = SqlNull
                                   \<and> (\<forall>g\<in>set patch_fields.
                                         js_prop req_body g = JUndefined
                                           \<longrightarrow> column g t' = column g t)
                              else t' = t"
      proof (cases "task_id t = i \<and> Some (user_id t) = u")
        case True
        with h have a: "\<forall>f\<in>set patch_fields.
                          if js_prop req_body f = JUndefined then column f t' = column f t
                          else coerce_column f (pg_value (js_prop req_body f))
                                 = Inr (column f t')" by simp
        from a assms(1,2) have "column f t' = SqlNull"
          by (auto simp: coerce_column_simps)
        moreover from a have "\<forall>g\<in>set patch_fields.
            js_prop req_body g = JUndefined \<longrightarrow> column g t' = column g t" by auto
        ultimately show ?thesis using True by simp
      next
        case nm: False
        with h show ?thesis by auto
      qed
    qed
    with r False show ?thesis by auto
  qed
qed

theorem update_task_null_title_counterexample:
  "update_task None 500 sample_db (Some 1) ''1'' [''title'' \<mapsto> JNull]
     = (error_response 500 ''Update failed'', sample_db)
   \<and> title alice_task = ''buy milk''"
  by (simp add: update_task_eval int4_in_eval sample_db_eval)

theorem update_task_null_field_witness:
  "\<exists>rows d'.
     update_task None 500 sample_db (Some 1) ''3'' [''description'' \<mapsto> JNull]
       = (json_response (RowsBody rows), d')
     \<and> list_all2
         (\<lambda>t t'. if task_id t = 3 \<and> Some (user_id t) = Some 1
                  then column ''description'' t' = SqlNull
                       \<and> (\<forall>g\<in>set patch_fields.
                             js_prop [''description'' \<mapsto> JNull] g = JUndefined
                               \<longrightarrow> column g t' = column g t)
                  else t' = t)
         (tasks sample_db) (tasks d')"
proof -
  have 1: "''description'' \<in> set patch_fields" by (simp add: patch_fields_def)
  have 2: "js_prop [''description'' \<mapsto> JNull] ''description'' = JNull"
    by (simp add: js_prop_def)
  have 3: "int4_in ''3'' = Inr 3" by (simp add: int4_in_eval)
  have 4: "alice_done_task \<in> set (tasks sample_db)" by (simp add: sample_db_def)
  have 5: "task_id alice_done_task = 3" by (simp add: alice_done_task_def)
  have 6: "Some (user_id alice_done_task) = Some 1" by (simp add: alice_done_task_def)
  have 7: "js_prop [''description'' \<mapsto> JNull] ''title'' \<noteq> JNull"
    by (simp add: js_prop_def)
  have 8: "\<not> refuses_patch [''description'' \<mapsto> JNull]"
    by (simp add: refuses_patch_def refused_value_def patch_fields_def js_prop_def
        coerce_column_def column_width_def varchar_def has_nul_def)
  from update_task_null_field [OF 1 2 3 4 5 6, of None 500] 7 8 show ?thesis by simp
qed

section \<open>Claims on ownership\<close>




section \<open>Claims on listing\<close>




end
